theory Spec2Isabelle
  imports Main "HOL-Library.AList"
begin

section \<open>Strings of the JavaScript runtime\<close>

text \<open>
  JavaScript strings are modelled as \<^typ>\<open>string\<close> (lists of 8-bit characters), which
  is exact for ASCII text. \<open>startsWith\<close>, \<open>endsWith\<close>, \<open>includes\<close>, \<open>split\<close> and
  \<open>join\<close> are the methods of \<open>String.prototype\<close> and \<open>Array.prototype\<close> the sources call.
\<close>

definition startsWith :: "string \<Rightarrow> string \<Rightarrow> bool" where
  "startsWith s p = (take (length p) s = p)"

definition endsWith :: "string \<Rightarrow> string \<Rightarrow> bool" where
  "endsWith s p = (length p \<le> length s \<and> drop (length s - length p) s = p)"

fun includes_str :: "string \<Rightarrow> string \<Rightarrow> bool" where
  "includes_str [] p = (p = [])"
| "includes_str (c # s) p = (startsWith (c # s) p \<or> includes_str s p)"

fun split_acc :: "char \<Rightarrow> string \<Rightarrow> string \<Rightarrow> string list" where
  "split_acc sep cur [] = [cur]"
| "split_acc sep cur (c # s) =
     (if c = sep then cur # split_acc sep [] s else split_acc sep (cur @ [c]) s)"

definition split_on :: "char \<Rightarrow> string \<Rightarrow> string list" where
  "split_on sep s = split_acc sep [] s"

fun join_with :: "string \<Rightarrow> string list \<Rightarrow> string" where
  "join_with sep [] = []"
| "join_with sep [x] = x"
| "join_with sep (x # y # ys) = x @ sep @ join_with sep (y # ys)"

text \<open>\<open>String.prototype.toLowerCase\<close>, on ASCII letters.\<close>

definition toLowerCase :: "string \<Rightarrow> string" where
  "toLowerCase s =
     map (\<lambda>c. if 65 \<le> (of_char c :: nat) \<and> (of_char c :: nat) \<le> 90
                then char_of ((of_char c :: nat) + 32) else c) s"

subsection \<open>\<open>String.prototype.replace\<close> with a literal pattern\<close>

text \<open>
  The replacement argument of \<open>replace\<close> is a template: \<open>$$\<close> stands for a dollar sign,
  \<open>$&\<close> for the matched text, \<open>$`\<close> for the text before the match and \<open>$'\<close> for
  the text after it. The patterns used below have no capture groups, so \<open>$1\<close> \<dots> \<open>$99\<close>
  and \<open>$<name>\<close> stay as they are.
\<close>

fun getSubstitution :: "string \<Rightarrow> string \<Rightarrow> string \<Rightarrow> string \<Rightarrow> string" where
  "getSubstitution matched preceding following [] = []"
| "getSubstitution matched preceding following [c] = [c]"
| "getSubstitution matched preceding following (c # d # r) =
     (if c = CHR ''$'' \<and> d = CHR ''$'' then CHR ''$'' # getSubstitution matched preceding following r
      else if c = CHR ''$'' \<and> d = CHR ''&'' then matched @ getSubstitution matched preceding following r
      else if c = CHR ''$'' \<and> d = CHR 0x60 then preceding @ getSubstitution matched preceding following r
      else if c = CHR ''$'' \<and> d = CHR 0x27 then following @ getSubstitution matched preceding following r
      else c # getSubstitution matched preceding following (d # r))"

text \<open>
  \<open>s.replace(new RegExp(escape(key), 'g'), value)\<close>: every regular-expression
  metacharacter of the key is escaped first, so the expression matches the text of the key
  and nothing else. The global flag replaces the matches from left to right, the search
  resuming after each match; an empty key matches before every character and at the end.
  \<open>preceding\<close> is the part of the subject already scanned.
\<close>

function replace_global :: "string \<Rightarrow> string \<Rightarrow> string \<Rightarrow> string \<Rightarrow> string" where
  "replace_global key val preceding [] =
     (if key = [] then getSubstitution [] preceding [] val else [])"
| "replace_global key val preceding (c # s) =
     (if key = [] then
        getSubstitution [] preceding (c # s) val @ c # replace_global key val (preceding @ [c]) s
      else if startsWith (c # s) key then
        getSubstitution key preceding (drop (length key) (c # s)) val
          @ replace_global key val (preceding @ key) (drop (length key) (c # s))
      else c # replace_global key val (preceding @ [c]) s)"
  by pat_completeness auto
termination
  by (relation "measure (\<lambda>(key, val, preceding, s). length s)") auto

text \<open>\<open>s.replace(p, value)\<close> with a string pattern \<open>p\<close>: only the first occurrence.\<close>

fun replace_first_from :: "string \<Rightarrow> string \<Rightarrow> string \<Rightarrow> string \<Rightarrow> string" where
  "replace_first_from pat val preceding [] =
     (if pat = [] then getSubstitution [] preceding [] val else [])"
| "replace_first_from pat val preceding (c # s) =
     (if startsWith (c # s) pat then
        getSubstitution pat preceding (drop (length pat) (c # s)) val @ drop (length pat) (c # s)
      else c # replace_first_from pat val (preceding @ [c]) s)"

definition replace_first :: "string \<Rightarrow> string \<Rightarrow> string \<Rightarrow> string" where
  "replace_first s pat val = replace_first_from pat val [] s"

section \<open>Compile-time substitution\<close>

text \<open>
  \<open>Bundler.applyDefines\<close> (and the same loop in \<open>TurboBundler.transformBatch\<close>):
  \<^verbatim>\<open>
  let result = code;
  for (const [key, value] of Object.entries(this.options.define)) {
    result = result.replace(new RegExp(key.replace(/[.*+?^${}()|[\]\\]/g, '\\$&'), 'g'), value);
  }
  return result;
  \<close>
  The \<open>define\<close> object is the list of its entries, in the order of \<open>Object.entries\<close>.
\<close>

definition applyDefines :: "(string \<times> string) list \<Rightarrow> string \<Rightarrow> string" where
  "applyDefines define code = fold (\<lambda>(key, val) result. replace_global key val [] result) define code"

text \<open>\<open>occurs key s\<close>: the text \<open>key\<close> appears somewhere in \<open>s\<close>.\<close>

definition occurs :: "string \<Rightarrow> string \<Rightarrow> bool" where
  "occurs key s = includes_str s key"

text \<open>
  What a global replace with an empty pattern gives: the replacement, expanded for the
  position, before every character of \<open>s\<close> and once more at the end.
\<close>

definition insert_everywhere :: "string \<Rightarrow> string \<Rightarrow> string \<Rightarrow> string" where
  "insert_everywhere val preceding s =
     concat (map (\<lambda>i. getSubstitution [] (preceding @ take i s) (drop i s) val @ take 1 (drop i s))
               [0..<Suc (length s)])"

section \<open>The \<open>path\<close> module of Node.js (POSIX)\<close>

text \<open>
  \<open>path.normalize\<close>, \<open>path.join\<close>, \<open>path.resolve\<close>, \<open>path.dirname\<close>, \<open>path.extname\<close> and
  \<open>path.relative\<close> follow the POSIX implementation of Node.js: segments are separated by
  \<open>/\<close>, empty segments and \<open>.\<close> are dropped, and \<open>..\<close> removes the segment before it.
\<close>

fun norm_segs :: "bool \<Rightarrow> string list \<Rightarrow> string list \<Rightarrow> string list" where
  "norm_segs allowAboveRoot acc [] = acc"
| "norm_segs allowAboveRoot acc (s # ss) =
     (if s = [] \<or> s = ''.'' then norm_segs allowAboveRoot acc ss
      else if s = ''..'' then
        (if acc \<noteq> [] \<and> last acc \<noteq> ''..'' then norm_segs allowAboveRoot (butlast acc) ss
         else if allowAboveRoot then norm_segs allowAboveRoot (acc @ [''..'']) ss
         else norm_segs allowAboveRoot acc ss)
      else norm_segs allowAboveRoot (acc @ [s]) ss)"

definition normalizeString :: "string \<Rightarrow> bool \<Rightarrow> string" where
  "normalizeString p allowAboveRoot =
     join_with ''/'' (norm_segs allowAboveRoot [] (split_on CHR ''/'' p))"

definition isAbsolute :: "string \<Rightarrow> bool" where
  "isAbsolute p = (p \<noteq> [] \<and> hd p = CHR ''/'')"

definition path_normalize :: "string \<Rightarrow> string" where
  "path_normalize p =
     (if p = [] then ''.''
      else let trailingSeparator = (last p = CHR ''/'');
               n = normalizeString p (\<not> isAbsolute p)
           in if n = [] then
                (if isAbsolute p then ''/'' else if trailingSeparator then ''./'' else ''.'')
              else (if isAbsolute p then ''/'' else []) @ n @ (if trailingSeparator then ''/'' else []))"

definition path_join :: "string list \<Rightarrow> string" where
  "path_join args =
     (let parts = filter (\<lambda>a. a \<noteq> []) args
      in if parts = [] then ''.'' else path_normalize (join_with ''/'' parts))"

text \<open>
  \<open>path.resolve\<close> reads its arguments from right to left until the path is absolute, and
  the current working directory after them.
\<close>

fun resolve_loop :: "string list \<Rightarrow> string \<Rightarrow> string \<times> bool" where
  "resolve_loop [] resolvedPath = (resolvedPath, False)"
| "resolve_loop (p # ps) resolvedPath =
     (if p = [] then resolve_loop ps resolvedPath
      else if hd p = CHR ''/'' then (p @ ''/'' @ resolvedPath, True)
      else resolve_loop ps (p @ ''/'' @ resolvedPath))"

definition path_resolve :: "string \<Rightarrow> string list \<Rightarrow> string" where
  "path_resolve cwd args =
     (case resolve_loop (rev args @ [cwd]) [] of
        (resolvedPath, resolvedAbsolute) \<Rightarrow>
          (let n = normalizeString resolvedPath (\<not> resolvedAbsolute)
           in if resolvedAbsolute then ''/'' @ n else if n \<noteq> [] then n else ''.''))"

text \<open>
  \<open>path.dirname\<close> scans from the end down to index 1: trailing slashes are skipped, then
  the last segment, and the path is cut at the slash before it.
\<close>

definition dirname_end :: "string \<Rightarrow> nat" where
  "dirname_end p =
     length (dropWhile (\<lambda>c. c \<noteq> CHR ''/'') (dropWhile (\<lambda>c. c = CHR ''/'') (rev (tl p))))"

definition path_dirname :: "string \<Rightarrow> string" where
  "path_dirname p =
     (if p = [] then ''.''
      else if dirname_end p = 0 then (if isAbsolute p then ''/'' else ''.'')
      else if isAbsolute p \<and> dirname_end p = 1 then ''//''
      else take (dirname_end p) p)"

text \<open>
  \<open>path.extname\<close>: from the last dot of the last segment, unless that dot is the first
  character of the segment or the segment is \<open>..\<close>.
\<close>

definition path_basename :: "string \<Rightarrow> string" where
  "path_basename p =
     rev (takeWhile (\<lambda>c. c \<noteq> CHR ''/'') (dropWhile (\<lambda>c. c = CHR ''/'') (rev p)))"

definition path_extname :: "string \<Rightarrow> string" where
  "path_extname p =
     (let b = path_basename p;
          ext = rev (takeWhile (\<lambda>c. c \<noteq> CHR ''.'') (rev b))
      in if CHR ''.'' \<notin> set b \<or> b = ''..'' \<or> length ext + 1 = length b then []
         else CHR ''.'' # ext)"

fun common_prefix_len :: "string list \<Rightarrow> string list \<Rightarrow> nat" where
  "common_prefix_len (x # xs) (y # ys) = (if x = y then Suc (common_prefix_len xs ys) else 0)"
| "common_prefix_len _ _ = 0"

definition path_relative :: "string \<Rightarrow> string \<Rightarrow> string \<Rightarrow> string" where
  "path_relative cwd from to =
     (let f = norm_segs False [] (split_on CHR ''/'' (path_resolve cwd [from]));
          t = norm_segs False [] (split_on CHR ''/'' (path_resolve cwd [to]));
          n = common_prefix_len f t
      in join_with ''/'' (replicate (length f - n) ''..'' @ drop n t))"

section \<open>JSON values, errors and the host environment\<close>

text \<open>
  The value \<open>JSON.parse\<close> returns. An object is the list of its entries in the order of
  \<open>Object.entries\<close>; \<open>undefined\<close> is \<open>None\<close> of \<open>json option\<close>. Numbers are kept as
  integers: only their truthiness is ever read.
\<close>

datatype json =
    JNull
  | JBool bool
  | JNum int
  | JStr string
  | JArr "json list"
  | JObj "(string \<times> json) list"

fun truthy :: "json option \<Rightarrow> bool" where
  "truthy None = False"
| "truthy (Some JNull) = False"
| "truthy (Some (JBool b)) = b"
| "truthy (Some (JNum n)) = (n \<noteq> 0)"
| "truthy (Some (JStr s)) = (s \<noteq> [])"
| "truthy (Some (JArr _)) = True"
| "truthy (Some (JObj _)) = True"

text \<open>
  Property read \<open>v[key]\<close> and the test \<open>key in v\<close>, for the keys the sources use
  (package fields, export subpaths, condition names): own properties of an object
  literal. The built-in properties of arrays, strings and \<open>Object.prototype\<close>
  (\<open>length\<close>, \<open>constructor\<close>, \<dots>) are not modelled.
\<close>

fun get_prop :: "json \<Rightarrow> string \<Rightarrow> json option" where
  "get_prop (JObj kvs) key = map_of kvs key"
| "get_prop _ key = None"

definition has_prop :: "json \<Rightarrow> string \<Rightarrow> bool" where
  "has_prop v key = (get_prop v key \<noteq> None)"

text \<open>A string or \<open>null\<close> result tested by \<open>if (x)\<close> or \<open>x || y\<close>: the empty string is falsy.\<close>

definition truthy_str :: "string option \<Rightarrow> bool" where
  "truthy_str r = (case r of None \<Rightarrow> False | Some s \<Rightarrow> s \<noteq> [])"

text \<open>
  What the sources throw: \<open>new Error(message)\<close>, and the errors of the runtime itself: a
  \<open>TypeError\<close> (a property of \<open>null\<close>, a non-string handed to \<open>path.join\<close>), a
  \<open>SyntaxError\<close> of \<open>new RegExp\<close>, and the \<open>RangeError\<close> of an exhausted call stack.
\<close>

datatype error =
    Error string
  | TypeError
  | RegExpSyntaxError
  | RangeError

datatype fs_kind = IsFile | IsDirectory | IsOther

text \<open>Outcome of \<open>subpath.match(new RegExp('^' + pattern.replace('*', '(.+)') + '$'))\<close>.\<close>

datatype regex_result = NoMatch | Match string | InvalidRegExp

text \<open>
  The host: \<open>stat\<close> is \<open>fs.existsSync\<close> with \<open>fs.statSync\<close> (\<open>None\<close>: the path does
  not exist); \<open>readJson\<close> is \<open>JSON.parse(fs.readFileSync(p, 'utf-8'))\<close> (\<open>None\<close>: the
  call throws) and \<open>readFile\<close> is \<open>fs.readFileSync(p, 'utf-8')\<close> (\<open>Inl e\<close>: the call
  throws \<open>e\<close>); \<open>cwd\<close> is
  \<open>process.cwd()\<close>; \<open>exportsPattern pattern subpath\<close> is the match of a subpath against
  an \<open>exports\<close> key compiled as a regular expression (the key is not escaped, so this is
  the regular-expression engine's answer; \<open>Match\<close> carries group 1); \<open>maxCallDepth\<close> is the
  number of nested calls the stack allows.
\<close>

record host =
  stat :: "string \<Rightarrow> fs_kind option"
  readJson :: "string \<Rightarrow> json option"
  readFile :: "string \<Rightarrow> error + string"
  cwd :: string
  exportsPattern :: "string \<Rightarrow> string \<Rightarrow> regex_result"
  maxCallDepth :: nat

definition existsSync :: "host \<Rightarrow> string \<Rightarrow> bool" where
  "existsSync h p = (stat h p \<noteq> None)"

definition isFileSync :: "host \<Rightarrow> string \<Rightarrow> bool" where
  "isFileSync h p = (stat h p = Some IsFile)"

definition isDirectorySync :: "host \<Rightarrow> string \<Rightarrow> bool" where
  "isDirectorySync h p = (stat h p = Some IsDirectory)"

definition quoted :: "string \<Rightarrow> string" where
  "quoted s = [CHR 0x27] @ s @ [CHR 0x27]"

section \<open>The module resolver\<close>

record ResolveOptions =
  basedir :: string
  extensions :: "string list"
  alias_opt :: "(string \<times> string) list"
  paths :: "(string \<times> string list) list"
  baseUrl :: string
  mainFields :: "string list"
  conditionNames :: "string list"
  browser :: bool
  external_opt :: "string list"

record ResolveResult =
  path :: string
  external_flag :: bool
  packageName :: "string option"
  packageVersion :: "json option"
  sideEffects_field :: "json option"

definition DEFAULT_EXTENSIONS :: "string list" where
  "DEFAULT_EXTENSIONS =
     [''.ts'', ''.tsx'', ''.js'', ''.jsx'', ''.mjs'', ''.mts'', ''.cjs'', ''.cts'', ''.json'']"

definition DEFAULT_MAIN_FIELDS :: "string list" where
  "DEFAULT_MAIN_FIELDS = [''module'', ''main'', ''browser'']"

definition DEFAULT_CONDITION_NAMES :: "string list" where
  "DEFAULT_CONDITION_NAMES = [''import'', ''require'', ''default'', ''browser'', ''node'']"

text \<open>
  The resolver's state: \<open>cache\<close> maps \<open>basedir:specifier\<close> to a path or to \<open>null\<close>
  (\<open>Some None\<close>); \<open>packageCache\<close> maps the path of a \<open>package.json\<close> to its parsed value.
\<close>

record resolver_state =
  cache :: "string \<Rightarrow> string option option"
  packageCache :: "string \<Rightarrow> json option"

definition new_resolver_state :: resolver_state where
  "new_resolver_state = \<lparr>cache = (\<lambda>_. None), packageCache = (\<lambda>_. None)\<rparr>"

definition plain_result :: "string \<Rightarrow> bool \<Rightarrow> ResolveResult" where
  "plain_result p ext =
     \<lparr>path = p, external_flag = ext, packageName = None, packageVersion = None,
      sideEffects_field = None\<rparr>"

definition package_result :: "string \<Rightarrow> string \<Rightarrow> json \<Rightarrow> ResolveResult" where
  "package_result p name pkg =
     \<lparr>path = p, external_flag = False, packageName = Some name,
      packageVersion = get_prop pkg ''version'', sideEffects_field = get_prop pkg ''sideEffects''\<rparr>"

definition builtins :: "string list" where
  "builtins =
     [''fs'', ''path'', ''os'', ''util'', ''events'', ''stream'', ''http'', ''https'',
      ''url'', ''querystring'', ''crypto'', ''zlib'', ''buffer'', ''child_process'',
      ''cluster'', ''dgram'', ''dns'', ''net'', ''readline'', ''repl'', ''tls'', ''tty'',
      ''v8'', ''vm'', ''worker_threads'', ''assert'', ''async_hooks'', ''console'',
      ''constants'', ''domain'', ''inspector'', ''module'', ''perf_hooks'', ''process'',
      ''punycode'', ''string_decoder'', ''sys'', ''timers'', ''trace_events'', ''wasi'']"

definition isExternal :: "ResolveOptions \<Rightarrow> string \<Rightarrow> bool" where
  "isExternal opts specifier =
     (if startsWith specifier ''node:'' then True
      else if hd (split_on CHR ''/'' specifier) \<in> set builtins then True
      else list_ex (\<lambda>ext. ext = specifier
                      \<or> (endsWith ext ''*'' \<and> startsWith specifier (butlast ext)))
             (external_opt opts))"

fun resolveAlias_loop :: "(string \<times> string) list \<Rightarrow> string \<Rightarrow> string" where
  "resolveAlias_loop [] specifier = specifier"
| "resolveAlias_loop ((a, target) # rest) specifier =
     (if specifier = a then target
      else if startsWith specifier (a @ ''/'') then target @ drop (length a) specifier
      else resolveAlias_loop rest specifier)"

definition resolveAlias :: "ResolveOptions \<Rightarrow> string \<Rightarrow> string" where
  "resolveAlias opts specifier = resolveAlias_loop (alias_opt opts) specifier"

definition tryResolveFile :: "host \<Rightarrow> ResolveOptions \<Rightarrow> string \<Rightarrow> string option" where
  "tryResolveFile h opts filePath =
     (if isFileSync h filePath then Some filePath
      else (case find (\<lambda>ext. isFileSync h (filePath @ ext)) (extensions opts) of
              Some ext \<Rightarrow> Some (filePath @ ext)
            | None \<Rightarrow> None))"

text \<open>
  \<open>patternToRegex\<close> escapes every metacharacter of a \<open>paths\<close> pattern and turns its first
  \<open>*\<close> into \<open>(.*)\<close>, between \<open>^\<close> and \<open>$\<close>: the specifier matches when it begins with
  the text before the star and ends with the text after it, and the part in between
  (group 1) holds no line terminator. Without a star the match is an equality, and
  \<open>match[1] || ''\<close> is empty.
\<close>

definition paths_match :: "string \<Rightarrow> string \<Rightarrow> string option" where
  "paths_match pattern specifier =
     (if CHR ''*'' \<notin> set pattern then (if specifier = pattern then Some [] else None)
      else let pre = takeWhile (\<lambda>c. c \<noteq> CHR ''*'') pattern;
               post = tl (dropWhile (\<lambda>c. c \<noteq> CHR ''*'') pattern);
               mid = take (length specifier - length pre - length post)
                       (drop (length pre) specifier)
           in if length pre + length post \<le> length specifier
                 \<and> startsWith specifier pre \<and> endsWith specifier post
                 \<and> CHR 0x0A \<notin> set mid \<and> CHR 0x0D \<notin> set mid
              then Some mid else None)"

fun resolvePaths_targets ::
  "host \<Rightarrow> ResolveOptions \<Rightarrow> string \<Rightarrow> string list \<Rightarrow> string option" where
  "resolvePaths_targets h opts captured [] = None"
| "resolvePaths_targets h opts captured (target # rest) =
     (let resolved = replace_first target ''*'' captured;
          fullPath = path_resolve (cwd h) [baseUrl opts, resolved];
          found = tryResolveFile h opts fullPath
      in if truthy_str found then found else resolvePaths_targets h opts captured rest)"

fun resolvePaths_loop ::
  "host \<Rightarrow> ResolveOptions \<Rightarrow> (string \<times> string list) list \<Rightarrow> string \<Rightarrow> string option" where
  "resolvePaths_loop h opts [] specifier = None"
| "resolvePaths_loop h opts ((pattern, targets) # rest) specifier =
     (case paths_match pattern specifier of
        None \<Rightarrow> resolvePaths_loop h opts rest specifier
      | Some captured \<Rightarrow>
          (case resolvePaths_targets h opts captured targets of
             Some found \<Rightarrow> Some found
           | None \<Rightarrow> resolvePaths_loop h opts rest specifier))"

definition resolvePaths :: "host \<Rightarrow> ResolveOptions \<Rightarrow> string \<Rightarrow> string option" where
  "resolvePaths h opts specifier =
     (if baseUrl opts = [] then None else resolvePaths_loop h opts (paths opts) specifier)"

definition readPackageJson ::
  "host \<Rightarrow> (string \<Rightarrow> json option) \<Rightarrow> string \<Rightarrow> json \<times> (string \<Rightarrow> json option)" where
  "readPackageJson h pc pkgPath =
     (case pc pkgPath of
        Some pkg \<Rightarrow> (pkg, pc)
      | None \<Rightarrow>
          (case readJson h pkgPath of
             Some pkg \<Rightarrow> (pkg, pc(pkgPath := Some pkg))
           | None \<Rightarrow> (JObj [], pc)))"

text \<open>
  \<open>getMainFromPackage\<close>: the \<open>browser\<close> field when the build is for the browser and the
  field is a string, else the first truthy field of \<open>mainFields\<close>. Reading a property of
  \<open>null\<close> (a \<open>package.json\<close> that holds \<open>null\<close>) throws.
\<close>

definition getMainFromPackage :: "ResolveOptions \<Rightarrow> json \<Rightarrow> error + json option" where
  "getMainFromPackage opts pkg =
     (if pkg = JNull then (if browser opts \<or> mainFields opts \<noteq> [] then Inl TypeError else Inr None)
      else if browser opts \<and> truthy (get_prop pkg ''browser'')
              \<and> (case get_prop pkg ''browser'' of Some (JStr _) \<Rightarrow> True | _ \<Rightarrow> False)
      then Inr (get_prop pkg ''browser'')
      else (case find (\<lambda>field. truthy (get_prop pkg field)) (mainFields opts) of
              Some field \<Rightarrow> Inr (get_prop pkg field)
            | None \<Rightarrow> Inr None))"

subsection \<open>The \<open>exports\<close> field\<close>

text \<open>
  \<open>for (const condition of conditionNames) if (condition in target) \<dots> target[condition]\<close>:
  the value under the first name of the list that the object has.
\<close>

fun first_condition :: "string list \<Rightarrow> json \<Rightarrow> json option" where
  "first_condition [] v = None"
| "first_condition (condition # rest) v =
     (if has_prop v condition then get_prop v condition else first_condition rest v)"

lemma map_of_json_size:
  "map_of kvs key = Some v \<Longrightarrow> size v < Suc (size_list (size_prod (\<lambda>_. 0) size) kvs)"
  by (induction kvs) (auto split: if_splits)

lemma first_condition_size:
  "first_condition cn (JObj kvs) = Some v \<Longrightarrow> size v < size (JObj kvs)"
  by (induction cn) (auto simp: has_prop_def dest: map_of_json_size split: if_splits)

function resolveExportsTarget :: "string list \<Rightarrow> string \<Rightarrow> json \<Rightarrow> string option" where
  "resolveExportsTarget cn packagePath (JStr target) = Some (path_join [packagePath, target])"
| "resolveExportsTarget cn packagePath (JObj kvs) =
     (case first_condition cn (JObj kvs) of
        Some v \<Rightarrow> resolveExportsTarget cn packagePath v
      | None \<Rightarrow> None)"
| "resolveExportsTarget cn packagePath (JArr xs) = None"
| "resolveExportsTarget cn packagePath JNull = None"
| "resolveExportsTarget cn packagePath (JBool b) = None"
| "resolveExportsTarget cn packagePath (JNum n) = None"
  by pat_completeness auto
termination
  by (relation "measure (\<lambda>(cn, packagePath, target). size target)")
     (auto dest: first_condition_size)

text \<open>
  The loop over the pattern keys (those holding a \<open>*\<close>): the first key whose regular
  expression matches the subpath and whose target resolves gives the result, the first
  \<open>*\<close> of the resolved path replaced by group 1 of the match.
\<close>

fun exports_patterns ::
  "host \<Rightarrow> string list \<Rightarrow> string \<Rightarrow> (string \<times> json) list \<Rightarrow> string \<Rightarrow> error + string option" where
  "exports_patterns h cn packagePath [] subpath = Inr None"
| "exports_patterns h cn packagePath ((pattern, target) # rest) subpath =
     (if CHR ''*'' \<in> set pattern then
        (case exportsPattern h pattern subpath of
           InvalidRegExp \<Rightarrow> Inl RegExpSyntaxError
         | NoMatch \<Rightarrow> exports_patterns h cn packagePath rest subpath
         | Match group1 \<Rightarrow>
             (case resolveExportsTarget cn packagePath target of
                Some resolved \<Rightarrow>
                  (if resolved \<noteq> [] then Inr (Some (replace_first resolved ''*'' group1))
                   else exports_patterns h cn packagePath rest subpath)
              | None \<Rightarrow> exports_patterns h cn packagePath rest subpath))
      else exports_patterns h cn packagePath rest subpath)"

function resolveExports ::
    "host \<Rightarrow> string list \<Rightarrow> string \<Rightarrow> json \<Rightarrow> string \<Rightarrow> error + string option"
  and resolveExports_array ::
    "host \<Rightarrow> string list \<Rightarrow> string \<Rightarrow> json list \<Rightarrow> string \<Rightarrow> error + string option" where
  "resolveExports h cn packagePath (JStr target) subpath =
     (if subpath = ''.'' then Inr (Some (path_join [packagePath, target])) else Inr None)"
| "resolveExports h cn packagePath (JArr xs) subpath =
     resolveExports_array h cn packagePath xs subpath"
| "resolveExports h cn packagePath (JObj kvs) subpath =
     (if has_prop (JObj kvs) subpath then
        Inr (resolveExportsTarget cn packagePath (the (get_prop (JObj kvs) subpath)))
      else
        (case exports_patterns h cn packagePath kvs subpath of
           Inl e \<Rightarrow> Inl e
         | Inr (Some resolved) \<Rightarrow> Inr (Some resolved)
         | Inr None \<Rightarrow>
             (case first_condition cn (JObj kvs) of
                Some v \<Rightarrow> resolveExports h cn packagePath v subpath
              | None \<Rightarrow> Inr None)))"
| "resolveExports h cn packagePath JNull subpath = Inr None"
| "resolveExports h cn packagePath (JBool b) subpath = Inr None"
| "resolveExports h cn packagePath (JNum n) subpath = Inr None"
| "resolveExports_array h cn packagePath [] subpath = Inr None"
| "resolveExports_array h cn packagePath (x # xs) subpath =
     (case resolveExports h cn packagePath x subpath of
        Inl e \<Rightarrow> Inl e
      | Inr resolved \<Rightarrow>
          (if truthy_str resolved then Inr resolved
           else resolveExports_array h cn packagePath xs subpath))"
  by pat_completeness auto
termination
  by (relation "measure (\<lambda>x. case x of
        Inl (h, cn, packagePath, v, subpath) \<Rightarrow> 2 * size v
      | Inr (h, cn, packagePath, vs, subpath) \<Rightarrow> 2 * size_list size vs + 1)")
     (auto dest: first_condition_size)

subsection \<open>Files, directories and packages\<close>

text \<open>
  \<open>tryResolveDirectory\<close>: a directory resolves through the entry field of its
  \<open>package.json\<close>, then through its \<open>index\<close> file. The package cache is threaded
  through.
\<close>

definition tryResolveDirectory ::
  "host \<Rightarrow> ResolveOptions \<Rightarrow> (string \<Rightarrow> json option) \<Rightarrow> string
     \<Rightarrow> (error + string option) \<times> (string \<Rightarrow> json option)" where
  "tryResolveDirectory h opts pc dirPath =
     (if \<not> isDirectorySync h dirPath then (Inr None, pc)
      else
        (let pkgPath = path_join [dirPath, ''package.json''];
             indexFile = tryResolveFile h opts (path_join [dirPath, ''index''])
         in if existsSync h pkgPath then
              (case readPackageJson h pc pkgPath of
                 (pkg, pc1) \<Rightarrow>
                   (case getMainFromPackage opts pkg of
                      Inl e \<Rightarrow> (Inl e, pc1)
                    | Inr None \<Rightarrow> (Inr indexFile, pc1)
                    | Inr (Some (JStr main)) \<Rightarrow>
                        (let resolved = tryResolveFile h opts (path_resolve (cwd h) [dirPath, main])
                         in if truthy_str resolved then (Inr resolved, pc1)
                            else (Inr indexFile, pc1))
                    | Inr (Some _) \<Rightarrow> (Inl TypeError, pc1)))
            else (Inr indexFile, pc)))"

text \<open>\<open>this.tryResolveFile(p) || this.tryResolveDirectory(p)\<close>\<close>

definition tryResolveFileOrDirectory ::
  "host \<Rightarrow> ResolveOptions \<Rightarrow> (string \<Rightarrow> json option) \<Rightarrow> string
     \<Rightarrow> (error + string option) \<times> (string \<Rightarrow> json option)" where
  "tryResolveFileOrDirectory h opts pc p =
     (let file = tryResolveFile h opts p
      in if truthy_str file then (Inr file, pc) else tryResolveDirectory h opts pc p)"

definition resolveRelative ::
  "host \<Rightarrow> ResolveOptions \<Rightarrow> (string \<Rightarrow> json option) \<Rightarrow> string \<Rightarrow> string
     \<Rightarrow> (error + string option) \<times> (string \<Rightarrow> json option)" where
  "resolveRelative h opts pc specifier dir =
     tryResolveFileOrDirectory h opts pc (path_resolve (cwd h) [dir, specifier])"

text \<open>
  The body of the loop of \<open>resolveNodeModule\<close> once the \<open>package.json\<close> of
  \<open>node_modules/<package>\<close> is read. \<open>Inr None\<close>: nothing was found, the walk goes on
  with the parent directory.
\<close>

definition probeTarget ::
  "host \<Rightarrow> ResolveOptions \<Rightarrow> (string \<Rightarrow> json option) \<Rightarrow> json \<Rightarrow> string \<Rightarrow> string
     \<Rightarrow> (error + ResolveResult option) \<times> (string \<Rightarrow> json option)" where
  "probeTarget h opts pc pkg name targetPath =
     (case tryResolveFileOrDirectory h opts pc targetPath of
        (Inl e, pc1) \<Rightarrow> (Inl e, pc1)
      | (Inr resolved, pc1) \<Rightarrow>
          (if truthy_str resolved then (Inr (Some (package_result (the resolved) name pkg)), pc1)
           else (Inr None, pc1)))"

definition exportsOf ::
  "host \<Rightarrow> ResolveOptions \<Rightarrow> json \<Rightarrow> string \<Rightarrow> string \<Rightarrow> error + string option" where
  "exportsOf h opts pkg subpath nodeModulesPath =
     (case get_prop pkg ''exports'' of
        Some exports \<Rightarrow> resolveExports h (conditionNames opts) nodeModulesPath exports subpath
      | None \<Rightarrow> Inr None)"

definition resolveInPackage ::
  "host \<Rightarrow> ResolveOptions \<Rightarrow> (string \<Rightarrow> json option) \<Rightarrow> json \<Rightarrow> string \<Rightarrow> string \<Rightarrow> string
     \<Rightarrow> (error + ResolveResult option) \<times> (string \<Rightarrow> json option)" where
  "resolveInPackage h opts pc pkg name subpath nodeModulesPath =
     (if pkg = JNull then (Inl TypeError, pc)
      else
        (case (if truthy (get_prop pkg ''exports'') \<and> subpath \<noteq> []
               then exportsOf h opts pkg (''./'' @ subpath) nodeModulesPath else Inr None) of
           Inl e \<Rightarrow> (Inl e, pc)
         | Inr resolved \<Rightarrow>
             if truthy_str resolved then (Inr (Some (package_result (the resolved) name pkg)), pc)
             else if subpath \<noteq> [] then
               probeTarget h opts pc pkg name (path_join [nodeModulesPath, subpath])
             else
               (case (if truthy (get_prop pkg ''exports'')
                      then exportsOf h opts pkg ''.'' nodeModulesPath else Inr None) of
                  Inl e \<Rightarrow> (Inl e, pc)
                | Inr resolved \<Rightarrow>
                    if truthy_str resolved
                    then (Inr (Some (package_result (the resolved) name pkg)), pc)
                    else
                      (case getMainFromPackage opts pkg of
                         Inl e \<Rightarrow> (Inl e, pc)
                       | Inr None \<Rightarrow> probeTarget h opts pc pkg name nodeModulesPath
                       | Inr (Some (JStr main)) \<Rightarrow>
                           probeTarget h opts pc pkg name (path_join [nodeModulesPath, main])
                       | Inr (Some _) \<Rightarrow> (Inl TypeError, pc)))))"

definition resolveNodeModule_at ::
  "host \<Rightarrow> ResolveOptions \<Rightarrow> (string \<Rightarrow> json option) \<Rightarrow> string \<Rightarrow> string \<Rightarrow> string
     \<Rightarrow> (error + ResolveResult option) \<times> (string \<Rightarrow> json option)" where
  "resolveNodeModule_at h opts pc name subpath current =
     (let nodeModulesPath = path_join [current, ''node_modules'', name];
          pkgPath = path_join [nodeModulesPath, ''package.json'']
      in if existsSync h nodeModulesPath \<and> existsSync h pkgPath then
           (case readPackageJson h pc pkgPath of
              (pkg, pc1) \<Rightarrow> resolveInPackage h opts pc1 pkg name subpath nodeModulesPath)
         else (Inr None, pc))"

subsection \<open>Bare specifiers: the walk up the directories\<close>

text \<open>
  \<open>while (current !== path.dirname(current)) { \<dots> current = path.dirname(current); }\<close>
  ends because \<open>path.dirname\<close> returns its argument or a shorter path.
\<close>

definition dir_measure :: "string \<Rightarrow> nat" where
  "dir_measure p = (if p = ''.'' then 0 else if p = [] then 2 else length p + 1)"

lemma dir_measure_dot: "dir_measure ''.'' = 0"
  by (simp add: dir_measure_def)

lemma dir_measure_nil: "dir_measure [] = 2"
  by (simp add: dir_measure_def)

lemma dir_measure_other: "p \<noteq> ''.'' \<Longrightarrow> p \<noteq> [] \<Longrightarrow> dir_measure p = length p + 1"
  by (simp add: dir_measure_def)

lemma dir_measure_le: "p \<noteq> [] \<Longrightarrow> dir_measure p \<le> length p + 1"
  by (cases "p = ''.''") (simp_all add: dir_measure_def)

lemma dir_measure_pos: "p \<noteq> ''.'' \<Longrightarrow> 2 \<le> dir_measure p"
  by (cases p) (simp_all add: dir_measure_def)

lemma dir_measure_slash: "dir_measure ''/'' = 2" "dir_measure ''//'' = 3"
  by (simp_all add: dir_measure_def)

lemma dirname_nil: "path_dirname [] = ''.''"
  by (simp add: path_dirname_def)

lemma dirname_end_bound:
  assumes "0 < dirname_end p"
  shows "dirname_end p + 2 \<le> length p"
proof -
  define r1 where "r1 = dropWhile (\<lambda>c. c = CHR ''/'') (rev (tl p))"
  have e: "dirname_end p = length (dropWhile (\<lambda>c. c \<noteq> CHR ''/'') r1)"
    by (simp add: dirname_end_def r1_def)
  with assms have ne: "r1 \<noteq> []" by (cases r1) simp_all
  then have "hd r1 \<noteq> CHR ''/''"
    unfolding r1_def by (rule hd_dropWhile)
  then obtain c t where r1: "r1 = c # t" and c: "c \<noteq> CHR ''/''"
    using ne by (cases r1) simp_all
  have "dropWhile (\<lambda>c. c \<noteq> CHR ''/'') r1 = dropWhile (\<lambda>c. c \<noteq> CHR ''/'') t"
    unfolding r1 using c by simp
  then have "dirname_end p \<le> length t"
    using e by (simp add: length_dropWhile_le)
  moreover have "length r1 \<le> length (tl p)"
    unfolding r1_def using length_dropWhile_le[of _ "rev (tl p)"] by simp
  moreover have "length r1 = Suc (length t)" unfolding r1 by simp
  moreover have "length (tl p) = length p - 1" by simp
  ultimately show ?thesis by linarith
qed

lemma dirname_decreases:
  assumes "path_dirname p \<noteq> p"
  shows "dir_measure (path_dirname p) < dir_measure p"
proof (cases "p = []")
  case True
  then show ?thesis by (simp add: dirname_nil dir_measure_nil dir_measure_dot)
next
  case ne: False
  show ?thesis
  proof (cases "dirname_end p = 0")
    case True
    show ?thesis
    proof (cases "isAbsolute p")
      case True
      have d: "path_dirname p = ''/''"
        using True ne \<open>dirname_end p = 0\<close> by (simp add: path_dirname_def)
      obtain c t where p: "p = c # t" using ne by (cases p) simp_all
      have c: "c = CHR ''/''" using True unfolding isAbsolute_def p by simp
      have "t \<noteq> []"
      proof
        assume "t = []"
        then have "p = ''/''" using p c by simp
        then show False using assms d by simp
      qed
      then have "2 \<le> length p" unfolding p by (cases t) simp_all
      moreover have "p \<noteq> ''.''" using c p by simp
      ultimately have "3 \<le> dir_measure p" using dir_measure_other[OF _ ne] by simp
      then show ?thesis using d dir_measure_slash(1) by simp
    next
      case False
      have d: "path_dirname p = ''.''"
        using False ne \<open>dirname_end p = 0\<close> by (simp add: path_dirname_def)
      then have "p \<noteq> ''.''" using assms by auto
      then have "2 \<le> dir_measure p" by (rule dir_measure_pos)
      then show ?thesis using d dir_measure_dot by simp
    qed
  next
    case False
    then have b: "dirname_end p + 2 \<le> length p" using dirname_end_bound by simp
    have "p \<noteq> ''.''" using b by auto
    then have pm: "dir_measure p = length p + 1" using ne by (rule dir_measure_other)
    show ?thesis
    proof (cases "isAbsolute p \<and> dirname_end p = 1")
      case True
      have d: "path_dirname p = ''//''"
        using True ne False by (simp add: path_dirname_def)
      then show ?thesis using b pm True dir_measure_slash(2) by simp
    next
      case other: False
      have d: "path_dirname p = take (dirname_end p) p"
        using other ne False by (auto simp add: path_dirname_def)
      have "take (dirname_end p) p \<noteq> []" using False ne by simp
      then have "dir_measure (take (dirname_end p) p) \<le> length (take (dirname_end p) p) + 1"
        by (rule dir_measure_le)
      then show ?thesis using b pm d by simp
    qed
  qed
qed

function resolveNodeModule_walk ::
  "host \<Rightarrow> ResolveOptions \<Rightarrow> (string \<Rightarrow> json option) \<Rightarrow> string \<Rightarrow> string \<Rightarrow> string \<Rightarrow> string
     \<Rightarrow> string \<Rightarrow> (error + ResolveResult) \<times> (string \<Rightarrow> json option)" where
  "resolveNodeModule_walk h opts pc specifier dir name subpath current =
     (if current = path_dirname current then
        (Inl (Error (''Cannot find module '' @ quoted specifier @ '' from '' @ quoted dir)), pc)
      else
        (case resolveNodeModule_at h opts pc name subpath current of
           (Inl e, pc1) \<Rightarrow> (Inl e, pc1)
         | (Inr (Some result), pc1) \<Rightarrow> (Inr result, pc1)
         | (Inr None, pc1) \<Rightarrow>
             resolveNodeModule_walk h opts pc1 specifier dir name subpath (path_dirname current)))"
  by pat_completeness auto
termination
  by (relation "measure (\<lambda>(h, opts, pc, specifier, dir, name, subpath, current). dir_measure current)")
     (auto intro: dirname_decreases simp: eq_commute[of _ "path_dirname _"])

text \<open>
  \<open>parts[1]\<close> of a scoped specifier without a second segment is \<open>undefined\<close>, which
  the template string prints as \<open>undefined\<close>.
\<close>

definition resolveNodeModule ::
  "host \<Rightarrow> ResolveOptions \<Rightarrow> (string \<Rightarrow> json option) \<Rightarrow> string \<Rightarrow> string
     \<Rightarrow> (error + ResolveResult) \<times> (string \<Rightarrow> json option)" where
  "resolveNodeModule h opts pc specifier dir =
     (let parts = split_on CHR ''/'' specifier;
          isScoped = startsWith specifier ''@'';
          name = (if isScoped
                  then hd parts @ ''/'' @ (if 1 < length parts then parts ! 1 else ''undefined'')
                  else hd parts);
          subpath = join_with ''/'' (drop (if isScoped then 2 else 1) parts)
      in resolveNodeModule_walk h opts pc specifier dir name subpath dir)"

subsection \<open>\<open>resolveInternal\<close> and \<open>resolve\<close>\<close>

text \<open>
  \<open>resolveInternal\<close> calls itself on an aliased specifier. The first argument counts the
  call frames left: a chain of aliases that never ends exhausts the stack, and the
  \<open>RangeError\<close> is caught by \<open>resolve\<close> like any other error.
\<close>

fun resolveInternal ::
  "nat \<Rightarrow> host \<Rightarrow> ResolveOptions \<Rightarrow> (string \<Rightarrow> json option) \<Rightarrow> string \<Rightarrow> string
     \<Rightarrow> (error + ResolveResult) \<times> (string \<Rightarrow> json option)" where
  "resolveInternal 0 h opts pc specifier dir = (Inl RangeError, pc)"
| "resolveInternal (Suc frames) h opts pc specifier dir =
     (if isExternal opts specifier then (Inr (plain_result specifier True), pc)
      else if resolveAlias opts specifier \<noteq> specifier then
        resolveInternal frames h opts pc (resolveAlias opts specifier) dir
      else if truthy_str (resolvePaths h opts specifier) then
        (Inr (plain_result (the (resolvePaths h opts specifier)) False), pc)
      else if startsWith specifier ''.'' \<or> startsWith specifier ''/'' then
        (case resolveRelative h opts pc specifier dir of
           (Inl e, pc1) \<Rightarrow> (Inl e, pc1)
         | (Inr resolved, pc1) \<Rightarrow>
             (if truthy_str resolved then (Inr (plain_result (the resolved) False), pc1)
              else (Inl (Error (''Cannot resolve '' @ quoted specifier @ '' from '' @ quoted dir)),
                    pc1)))
      else resolveNodeModule h opts pc specifier dir)"

text \<open>
  \<open>resolve(specifier, fromFile)\<close>. A hit of the cache returns
  \<open>{ path: cached, external: false }\<close>, or throws when \<open>null\<close> is cached; a miss runs
  \<open>resolveInternal\<close> and stores the path of the result, or \<open>null\<close> when it threw.
\<close>

definition importing_dir :: "ResolveOptions \<Rightarrow> string option \<Rightarrow> string" where
  "importing_dir opts fromFile =
     (case fromFile of
        None \<Rightarrow> basedir opts
      | Some f \<Rightarrow> (if f = [] then basedir opts else path_dirname f))"

definition cacheKey :: "string \<Rightarrow> string \<Rightarrow> string" where
  "cacheKey dir specifier = dir @ '':'' @ specifier"

definition not_found :: "string \<Rightarrow> string \<Rightarrow> error" where
  "not_found specifier dir =
     Error (''Cannot resolve module '' @ quoted specifier @ '' from '' @ quoted dir)"

definition resolve ::
  "host \<Rightarrow> ResolveOptions \<Rightarrow> resolver_state \<Rightarrow> string \<Rightarrow> string option
     \<Rightarrow> (error + ResolveResult) \<times> resolver_state" where
  "resolve h opts st specifier fromFile =
     (let dir = importing_dir opts fromFile;
          key = cacheKey dir specifier
      in case cache st key of
           Some None \<Rightarrow> (Inl (not_found specifier dir), st)
         | Some (Some cached) \<Rightarrow> (Inr (plain_result cached False), st)
         | None \<Rightarrow>
             (case resolveInternal (maxCallDepth h) h opts (packageCache st) specifier dir of
                (Inr result, pc1) \<Rightarrow>
                  (Inr result,
                   \<lparr>cache = (cache st)(key := Some (Some (path result))), packageCache = pc1\<rparr>)
              | (Inl e, pc1) \<Rightarrow>
                  (Inl e, \<lparr>cache = (cache st)(key := Some None), packageCache = pc1\<rparr>)))"

definition clearCache :: "resolver_state \<Rightarrow> resolver_state" where
  "clearCache st = \<lparr>cache = (\<lambda>_. None), packageCache = (\<lambda>_. None)\<rparr>"

text \<open>
  The options the bundler gives its resolver:
  \<open>new ModuleResolver({ basedir: process.cwd(), alias, external, browser: target === 'browser' })\<close>,
  every other option at its default.
\<close>

datatype target = Browser | Node

definition bundler_resolver_options ::
  "host \<Rightarrow> (string \<times> string) list \<Rightarrow> string list \<Rightarrow> target \<Rightarrow> ResolveOptions" where
  "bundler_resolver_options h al ext tgt =
     \<lparr>basedir = cwd h, extensions = DEFAULT_EXTENSIONS, alias_opt = al, paths = [],
      baseUrl = [], mainFields = DEFAULT_MAIN_FIELDS, conditionNames = DEFAULT_CONDITION_NAMES,
      browser = (tgt = Browser), external_opt = ext\<rparr>"

subsection \<open>A project on disk\<close>

text \<open>
  A host given by the table of its files and directories, the parsed content of its
  \<open>package.json\<close> files and the text of its source files. The working directory is
  \<open>/p\<close>; no \<open>exports\<close> key of the examples holds a \<open>*\<close>. Reading a path that has
  no text throws the error of Node.js for a directory (\<open>EISDIR\<close>) or for a missing file
  (\<open>ENOENT\<close>).
\<close>

definition read_text :: "(string \<times> fs_kind) list \<Rightarrow> (string \<times> string) list \<Rightarrow> string \<Rightarrow> error + string" where
  "read_text nodes texts p =
     (case map_of texts p of
        Some s \<Rightarrow> Inr s
      | None \<Rightarrow>
          if map_of nodes p = Some IsDirectory
          then Inl (Error ''EISDIR: illegal operation on a directory, read'')
          else Inl (Error (''ENOENT: no such file or directory, open '' @ quoted p)))"

definition host_of ::
  "(string \<times> fs_kind) list \<Rightarrow> (string \<times> json) list \<Rightarrow> (string \<times> string) list \<Rightarrow> host" where
  "host_of nodes jsons texts =
     \<lparr>stat = map_of nodes, readJson = map_of jsons, readFile = read_text nodes texts, cwd = ''/p'',
      exportsPattern = (\<lambda>_ _. NoMatch), maxCallDepth = 100\<rparr>"

text \<open>
  \<open>/p/node_modules/pkg/package.json\<close> is
  \<open>{"exports": {"./sub": {"browser": "./b.js", "default": "./d.js"}}}\<close>.
\<close>

definition conditional_pkg :: json where
  "conditional_pkg =
     JObj [(''exports'',
            JObj [(''./sub'', JObj [(''browser'', JStr ''./b.js''), (''default'', JStr ''./d.js'')])])]"

definition conditional_host :: host where
  "conditional_host =
     host_of
       [(''/p'', IsDirectory), (''/p/main.js'', IsFile), (''/p/node_modules'', IsDirectory),
        (''/p/node_modules/pkg'', IsDirectory), (''/p/node_modules/pkg/package.json'', IsFile),
        (''/p/node_modules/pkg/b.js'', IsFile), (''/p/node_modules/pkg/d.js'', IsFile)]
       [(''/p/node_modules/pkg/package.json'', conditional_pkg)]
       []"



text \<open>A sequence of \<open>resolve\<close> calls on one resolver, each against the host of its moment.\<close>

fun resolve_many ::
  "ResolveOptions \<Rightarrow> resolver_state \<Rightarrow> (host \<times> string \<times> string option) list \<Rightarrow> resolver_state" where
  "resolve_many opts st [] = st"
| "resolve_many opts st ((h, specifier, fromFile) # calls) =
     resolve_many opts (snd (resolve h opts st specifier fromFile)) calls"

text \<open>The project of \<open>conditional_host\<close> once \<open>/p/missing.js\<close> has been created.\<close>

definition created_host :: host where
  "created_host =
     host_of
       [(''/p'', IsDirectory), (''/p/main.js'', IsFile), (''/p/missing.js'', IsFile),
        (''/p/node_modules'', IsDirectory), (''/p/node_modules/pkg'', IsDirectory),
        (''/p/node_modules/pkg/package.json'', IsFile),
        (''/p/node_modules/pkg/b.js'', IsFile), (''/p/node_modules/pkg/d.js'', IsFile)]
       [(''/p/node_modules/pkg/package.json'', conditional_pkg)]
       []"

section \<open>The parser: top-level \<open>await\<close>\<close>

text \<open>
  \<open>KonaParser.parse\<close> has the TypeScript compiler build the syntax tree
  (\<open>ts.createSourceFile\<close>) and walks it. The tree is the input here: a node has a kind
  and children, in the order \<open>ts.forEachChild\<close> visits them.
\<close>

datatype syntax_kind =
    SourceFile
  | FunctionDeclaration
  | FunctionExpression
  | ArrowFunction
  | MethodDeclaration
  | Constructor
  | GetAccessor
  | SetAccessor
  | ClassStaticBlockDeclaration
  | ClassDeclaration
  | ClassExpression
  | Block
  | ExpressionStatement
  | VariableStatement
  | AwaitExpression
  | CallExpression
  | Identifier
  | OtherKind nat

datatype ts_node = TsNode syntax_kind "ts_node list"

text \<open>
  The loop over the parents of an \<open>await\<close> expression, nearest first:
  \<^verbatim>\<open>
  let parent = node.parent;
  while (parent) {
    if (ts.isFunctionDeclaration(parent) || ts.isFunctionExpression(parent) ||
        ts.isArrowFunction(parent) || ts.isMethodDeclaration(parent)) break;
    if (ts.isSourceFile(parent)) { hasTopLevelAwait = true; break; }
    parent = parent.parent;
  }
  \<close>
\<close>

fun reaches_source_file :: "syntax_kind list \<Rightarrow> bool" where
  "reaches_source_file [] = False"
| "reaches_source_file (parent # parents) =
     (if parent = FunctionDeclaration \<or> parent = FunctionExpression
         \<or> parent = ArrowFunction \<or> parent = MethodDeclaration then False
      else if parent = SourceFile then True
      else reaches_source_file parents)"

text \<open>
  \<open>visit\<close>, for the flag \<open>hasTopLevelAwait\<close>: the kinds of the parents are passed down,
  the flag is threaded through the children.
\<close>

fun visit_await :: "syntax_kind list \<Rightarrow> ts_node \<Rightarrow> bool \<Rightarrow> bool" where
  "visit_await parents (TsNode kind children) hasTopLevelAwait =
     fold (visit_await (kind # parents)) children
       (if kind = AwaitExpression \<and> reaches_source_file parents then True
        else hasTopLevelAwait)"

definition parse_hasTopLevelAwait :: "ts_node \<Rightarrow> bool" where
  "parse_hasTopLevelAwait sourceFile = visit_await [] sourceFile False"

text \<open>
  The tree of \<open>class C { get x() { await y; } }\<close>. The \<open>await\<close> stands in the body of an
  accessor; the TypeScript parser reads \<open>await y\<close> as an await expression there and reports
  no parse diagnostic.
\<close>

definition await_in_getter :: ts_node where
  "await_in_getter =
     TsNode SourceFile
       [TsNode ClassDeclaration
          [TsNode Identifier [],
           TsNode GetAccessor
             [TsNode Identifier [],
              TsNode Block
                [TsNode ExpressionStatement
                   [TsNode AwaitExpression [TsNode Identifier []]]]]]]"

section \<open>The bundler\<close>

text \<open>
  The records keep the fields the build reads. Of a \<open>ParseResult\<close> that is the list of
  imports; the text of a chunk (\<open>code\<close>, with \<open>hash\<close>, \<open>size\<close>, \<open>imports\<close> and \<open>exports\<close>)
  is left out, as are the build statistics. A JavaScript \<open>Map\<close> is the list of its
  entries in insertion order (\<open>AList.update\<close> is \<open>Map.set\<close>), a \<open>Set\<close> the list of its
  members in insertion order.
\<close>

record ImportInfo =
  source :: string
  imp_isDynamic :: bool
  imp_isTypeOnly :: bool

record Dependency =
  dep_specifier :: string
  dep_resolved :: string
  dep_isDynamic :: bool
  dep_isTypeOnly :: bool

record Module =
  module_id :: string
  module_path :: string
  module_source :: string
  transformed :: string
  parseResult_imports :: "ImportInfo list"
  dependencies :: "Dependency list"
  dependents :: "string list"
  isEntry :: bool
  isDynamic :: bool
  chunk :: "string option"
  hash :: string
  sideEffects :: bool

record Chunk =
  chunk_id :: string
  chunk_name :: string
  chunk_modules :: "string list"
  chunk_isEntry :: bool
  chunk_isDynamic :: bool

record BundleOutput =
  chunks :: "Chunk list"
  output_modules :: "(string \<times> Module) list"

subsection \<open>Plugins\<close>

text \<open>
  A plugin registers callbacks in its \<open>setup\<close>; the bundler calls them with a path that
  passes their \<open>filter\<close>. A callback is taken to be a function of its arguments: it returns
  a result, returns nothing (\<open>null\<close> or \<open>undefined\<close>, \<open>None\<close> here) or throws an error
  (\<open>Inl\<close>); a promise it returns is awaited, so a rejection is a throw. Of the results, the
  fields the bundler reads are kept; a field left out is \<open>None\<close>, and \<open>external\<close> is
  read for its truth value. \<open>filter.test\<close> is a predicate on the path.
\<close>

record OnResolveArgs =
  args_path :: string
  args_importer :: string
  args_namespace :: string
  args_kind :: string

record OnResolveResult =
  result_path :: "string option"
  result_external :: bool

record OnLoadArgs =
  load_path :: string
  load_namespace :: string

record OnLoadResult =
  load_contents :: "string option"
  load_loader :: "string option"

record OnTransformArgs =
  transform_path :: string
  transform_contents :: string
  transform_loader :: string

record OnTransformResult =
  result_contents :: "string option"

type_synonym OnResolveCallback = "OnResolveArgs \<Rightarrow> error + OnResolveResult option"
type_synonym OnLoadCallback = "OnLoadArgs \<Rightarrow> error + OnLoadResult option"
type_synonym OnTransformCallback = "OnTransformArgs \<Rightarrow> error + OnTransformResult option"

text \<open>The three lists of hooks of a \<open>Bundler\<close>, each entry a filter with its callback.\<close>

record callbacks =
  resolveCallbacks :: "((string \<Rightarrow> bool) \<times> OnResolveCallback) list"
  loadCallbacks :: "((string \<Rightarrow> bool) \<times> OnLoadCallback) list"
  transformCallbacks :: "((string \<Rightarrow> bool) \<times> OnTransformCallback) list"

definition no_callbacks :: callbacks where
  "no_callbacks = \<lparr>resolveCallbacks = [], loadCallbacks = [], transformCallbacks = []\<rparr>"

text \<open>
  A call of \<open>build.onResolve\<close>, \<open>build.onLoad\<close> or \<open>build.onTransform\<close>. The \<open>setup\<close> of a
  plugin is the list of the calls it makes, in order, and the error it throws in the end,
  if it throws.
\<close>

datatype registration =
    OnResolve "string \<Rightarrow> bool" OnResolveCallback
  | OnLoad "string \<Rightarrow> bool" OnLoadCallback
  | OnTransform "string \<Rightarrow> bool" OnTransformCallback

record BundlerPlugin =
  plugin_name :: string
  plugin_setup :: "registration list \<times> error option"

record BundlerOptions =
  entry :: "string list"
  target_opt :: target
  splitting :: bool
  treeshake :: bool
  external_names :: "string list"
  alias_map :: "(string \<times> string) list"
  define_map :: "(string \<times> string) list"
  plugins :: "BundlerPlugin list"
  onProgress :: "string \<Rightarrow> error option"

text \<open>
  \<open>onProgress message\<close> is \<open>Some e\<close> when the callback of the options throws \<open>e\<close> for the
  message. What the bundler takes from libraries: \<open>parse_imports\<close> is the list
  \<open>this.parser.parse(source).imports\<close>, \<open>hashContent\<close> the first eight hexadecimal
  digits of the MD5 digest.
\<close>

record tools =
  parse_imports :: "string \<Rightarrow> ImportInfo list"
  hashContent :: "string \<Rightarrow> string"

text \<open>
  The module objects live in a store: \<open>heap\<close> lists the objects made so far and a module
  is referred to by its index there. \<open>modules\<close> is \<open>this.modules\<close>, from a path to the
  object stored under it. The store matters when a resolve callback sends two paths to the
  same key: \<open>Map.set\<close> then replaces the object under the key, while the loop that created
  the first object goes on pushing dependencies onto it. \<open>warnings\<close> are the lines given
  to \<open>console.warn\<close>.
\<close>

record bundler_state =
  heap :: "Module list"
  modules :: "(string \<times> nat) list"
  resolverState :: resolver_state
  warnings :: "string list"

definition new_bundler_state :: bundler_state where
  "new_bundler_state =
     \<lparr>heap = [], modules = [], resolverState = new_resolver_state, warnings = []\<rparr>"

text \<open>The entries of \<open>this.modules\<close>, each key with the object stored under it.\<close>

definition modules_of :: "bundler_state \<Rightarrow> (string \<times> Module) list" where
  "modules_of st = map (\<lambda>(key, a). (key, heap st ! a)) (modules st)"

definition resolver_options :: "host \<Rightarrow> BundlerOptions \<Rightarrow> ResolveOptions" where
  "resolver_options h opts =
     bundler_resolver_options h (alias_map opts) (external_names opts) (target_opt opts)"

definition generateModuleId :: "host \<Rightarrow> string \<Rightarrow> string" where
  "generateModuleId h modulePath =
     map (\<lambda>c. if c = CHR 0x5C then CHR ''/'' else c) (path_relative (cwd h) (cwd h) modulePath)"

definition set_add :: "string list \<Rightarrow> string \<Rightarrow> string list" where
  "set_add xs x = (if x \<in> set xs then xs else xs @ [x])"

text \<open>
  \<open>setupPlugins\<close>: the setups run in the order of the plugins, each call of a setup
  pushes onto one of the three lists; a setup that throws rejects the build.
\<close>

fun register :: "registration \<Rightarrow> callbacks \<Rightarrow> callbacks" where
  "register (OnResolve test callback) cbs =
     cbs\<lparr>resolveCallbacks := resolveCallbacks cbs @ [(test, callback)]\<rparr>"
| "register (OnLoad test callback) cbs =
     cbs\<lparr>loadCallbacks := loadCallbacks cbs @ [(test, callback)]\<rparr>"
| "register (OnTransform test callback) cbs =
     cbs\<lparr>transformCallbacks := transformCallbacks cbs @ [(test, callback)]\<rparr>"

fun setupPlugins :: "BundlerPlugin list \<Rightarrow> callbacks \<Rightarrow> error + callbacks" where
  "setupPlugins [] cbs = Inr cbs"
| "setupPlugins (plugin # rest) cbs =
     (case snd (plugin_setup plugin) of
        Some e \<Rightarrow> Inl e
      | None \<Rightarrow> setupPlugins rest (fold register (fst (plugin_setup plugin)) cbs))"

definition getLoader :: "string \<Rightarrow> string" where
  "getLoader filePath =
     (let ext = toLowerCase (path_extname filePath)
      in if ext = ''.ts'' then ''ts''
         else if ext = ''.tsx'' then ''tsx''
         else if ext = ''.jsx'' then ''jsx''
         else if ext = ''.json'' then ''json''
         else if ext = ''.css'' then ''css''
         else ''js'')"

text \<open>
  The loop over the resolve callbacks at the head of \<open>processModule\<close>: a callback whose
  filter passes the path as it stands is called; a result with a true \<open>external\<close> ends
  \<open>processModule\<close> with \<open>null\<close> (\<open>Inr None\<close> here), a result with a non-empty \<open>path\<close>
  replaces the path for the callbacks that follow and for the rest of \<open>processModule\<close>.
\<close>

fun runResolveCallbacks ::
  "((string \<Rightarrow> bool) \<times> OnResolveCallback) list \<Rightarrow> string \<Rightarrow> string \<Rightarrow> error + string option" where
  "runResolveCallbacks [] kind modulePath = Inr (Some modulePath)"
| "runResolveCallbacks ((test, callback) # rest) kind modulePath =
     (if test modulePath then
        (case callback \<lparr>args_path = modulePath, args_importer = [], args_namespace = ''file'',
                        args_kind = kind\<rparr> of
           Inl e \<Rightarrow> Inl e
         | Inr None \<Rightarrow> runResolveCallbacks rest kind modulePath
         | Inr (Some result) \<Rightarrow>
             if result_external result then Inr None
             else (case result_path result of
                     Some p \<Rightarrow>
                       if p \<noteq> [] then runResolveCallbacks rest kind p
                       else runResolveCallbacks rest kind modulePath
                   | None \<Rightarrow> runResolveCallbacks rest kind modulePath))
      else runResolveCallbacks rest kind modulePath)"

text \<open>
  The loop over the load callbacks: the first result with non-empty \<open>contents\<close> gives the
  source, and the loader if it names one, and ends the loop. The result is the source, if
  a callback gave one, and the loader.
\<close>

fun runLoadCallbacks ::
  "((string \<Rightarrow> bool) \<times> OnLoadCallback) list \<Rightarrow> string \<Rightarrow> string \<Rightarrow> error + (string option \<times> string)" where
  "runLoadCallbacks [] modulePath loader = Inr (None, loader)"
| "runLoadCallbacks ((test, callback) # rest) modulePath loader =
     (if test modulePath then
        (case callback \<lparr>load_path = modulePath, load_namespace = ''file''\<rparr> of
           Inl e \<Rightarrow> Inl e
         | Inr None \<Rightarrow> runLoadCallbacks rest modulePath loader
         | Inr (Some result) \<Rightarrow>
             (case load_contents result of
                Some contents \<Rightarrow>
                  if contents \<noteq> [] then
                    Inr (Some contents,
                         (case load_loader result of
                            Some l \<Rightarrow> if l \<noteq> [] then l else loader
                          | None \<Rightarrow> loader))
                  else runLoadCallbacks rest modulePath loader
              | None \<Rightarrow> runLoadCallbacks rest modulePath loader))
      else runLoadCallbacks rest modulePath loader)"

text \<open>The loop over the transform callbacks: every result with non-empty \<open>contents\<close> replaces the text.\<close>

fun runTransformCallbacks ::
  "((string \<Rightarrow> bool) \<times> OnTransformCallback) list \<Rightarrow> string \<Rightarrow> string \<Rightarrow> string \<Rightarrow> error + string" where
  "runTransformCallbacks [] modulePath loader code = Inr code"
| "runTransformCallbacks ((test, callback) # rest) modulePath loader code =
     (if test modulePath then
        (case callback \<lparr>transform_path = modulePath, transform_contents = code,
                        transform_loader = loader\<rparr> of
           Inl e \<Rightarrow> Inl e
         | Inr None \<Rightarrow> runTransformCallbacks rest modulePath loader code
         | Inr (Some result) \<Rightarrow>
             (case result_contents result of
                Some contents \<Rightarrow>
                  if contents \<noteq> [] then runTransformCallbacks rest modulePath loader contents
                  else runTransformCallbacks rest modulePath loader code
              | None \<Rightarrow> runTransformCallbacks rest modulePath loader code))
      else runTransformCallbacks rest modulePath loader code)"

definition could_not_resolve :: "string \<Rightarrow> string \<Rightarrow> string" where
  "could_not_resolve src modulePath =
     ''Warning: Could not resolve '' @ quoted src @ '' from '' @ quoted modulePath"

text \<open>The module object that \<open>processModule\<close> creates, \<open>code\<close> being the text the transform callbacks left.\<close>

definition new_module ::
  "host \<Rightarrow> tools \<Rightarrow> BundlerOptions \<Rightarrow> string \<Rightarrow> string \<Rightarrow> string \<Rightarrow> bool \<Rightarrow> bool \<Rightarrow> Module" where
  "new_module h t opts modulePath src code is_entry is_dynamic =
     \<lparr>module_id = generateModuleId h modulePath,
      module_path = modulePath,
      module_source = src,
      transformed = applyDefines (define_map opts) code,
      parseResult_imports = parse_imports t src,
      dependencies = [],
      dependents = [],
      isEntry = is_entry,
      isDynamic = is_dynamic,
      chunk = None,
      hash = hashContent t (applyDefines (define_map opts) code),
      sideEffects = True\<rparr>"

text \<open>
  \<open>createModule\<close> is the part of \<open>processModule\<close> between the test
  \<open>this.modules.has(modulePath)\<close> and \<open>this.modules.set(modulePath, module)\<close>: the resolve
  callbacks, the load callbacks, the default load (\<open>File not found\<close> when the path does
  not exist, else \<open>fs.readFileSync\<close>, whose error is passed on), the parse, the transform
  callbacks, the defines and the module object. Nothing there stands in a \<open>try\<close>: an
  error ends \<open>processModule\<close>. \<open>Inr None\<close>: a resolve callback said external.
\<close>

definition createModule ::
  "host \<Rightarrow> tools \<Rightarrow> BundlerOptions \<Rightarrow> callbacks \<Rightarrow> string \<Rightarrow> bool \<Rightarrow> bool \<Rightarrow> error + Module option" where
  "createModule h t opts cbs path0 is_entry is_dynamic =
     (case runResolveCallbacks (resolveCallbacks cbs)
             (if is_entry then ''entry'' else if is_dynamic then ''dynamic'' else ''import'') path0 of
        Inl e \<Rightarrow> Inl e
      | Inr None \<Rightarrow> Inr None
      | Inr (Some modulePath) \<Rightarrow>
          (case runLoadCallbacks (loadCallbacks cbs) modulePath (getLoader modulePath) of
             Inl e \<Rightarrow> Inl e
           | Inr (loaded, loader) \<Rightarrow>
               (case (case loaded of
                        Some contents \<Rightarrow> Inr contents
                      | None \<Rightarrow>
                          if \<not> existsSync h modulePath
                          then Inl (Error (''File not found: '' @ modulePath))
                          else readFile h modulePath) of
                  Inl e \<Rightarrow> Inl e
                | Inr src \<Rightarrow>
                    (case runTransformCallbacks (transformCallbacks cbs) modulePath loader src of
                       Inl e \<Rightarrow> Inl e
                     | Inr code \<Rightarrow>
                         Inr (Some (new_module h t opts modulePath src code is_entry is_dynamic))))))"

text \<open>
  \<open>processModule\<close>: a path that is a key of \<open>this.modules\<close> gives the object stored
  there; otherwise the module is created and stored under its path, and every import that
  is not type-only is resolved and processed in turn. The body of that loop stands in a
  \<open>try\<close>: whatever it throws is caught and a warning is printed.
  \<^verbatim>\<open>
  for (const imp of parseResult.imports) {
    if (imp.isTypeOnly) continue;
    try {
      const resolved = this.resolver.resolve(imp.source, modulePath);
      if (!resolved.external) {
        module.dependencies.push({ specifier: imp.source, resolved: resolved.path, ... });
        const depModule = await this.processModule(resolved.path, false, imp.isDynamic);
        if (depModule) { depModule.dependents.add(modulePath); }
      }
    } catch (error) {
      console.warn(`Warning: Could not resolve '${imp.source}' from '${modulePath}'`);
    }
  }
  \<close>
  \<open>processImports\<close> is this loop for the module object \<open>a\<close> with the path \<open>modulePath\<close>.
  The result of \<open>processModule\<close> is the object, or \<open>None\<close> for \<open>null\<close>. The first argument
  bounds the depth of the recursion; the outer \<open>None\<close> means that the bound was reached.
\<close>

definition push_dependency :: "Dependency \<Rightarrow> Module \<Rightarrow> Module" where
  "push_dependency dep m = m\<lparr>dependencies := dependencies m @ [dep]\<rparr>"

definition add_dependent :: "string \<Rightarrow> Module \<Rightarrow> Module" where
  "add_dependent p m = m\<lparr>dependents := set_add (dependents m) p\<rparr>"

definition dependency_of :: "ImportInfo \<Rightarrow> ResolveResult \<Rightarrow> Dependency" where
  "dependency_of imp res =
     \<lparr>dep_specifier = source imp, dep_resolved = path res, dep_isDynamic = imp_isDynamic imp,
      dep_isTypeOnly = imp_isTypeOnly imp\<rparr>"

fun processModule ::
    "nat \<Rightarrow> host \<Rightarrow> tools \<Rightarrow> BundlerOptions \<Rightarrow> callbacks \<Rightarrow> bundler_state \<Rightarrow> string \<Rightarrow> bool \<Rightarrow> bool
       \<Rightarrow> ((error + nat option) \<times> bundler_state) option"
  and processImports ::
    "nat \<Rightarrow> host \<Rightarrow> tools \<Rightarrow> BundlerOptions \<Rightarrow> callbacks \<Rightarrow> bundler_state \<Rightarrow> nat \<Rightarrow> string
       \<Rightarrow> ImportInfo list \<Rightarrow> bundler_state option" where
  "processModule 0 h t opts cbs st path0 is_entry is_dynamic = None"
| "processModule (Suc depth) h t opts cbs st path0 is_entry is_dynamic =
     (case map_of (modules st) path0 of
        Some a \<Rightarrow> Some (Inr (Some a), st)
      | None \<Rightarrow>
          (case createModule h t opts cbs path0 is_entry is_dynamic of
             Inl e \<Rightarrow> Some (Inl e, st)
           | Inr None \<Rightarrow> Some (Inr None, st)
           | Inr (Some m) \<Rightarrow>
               (case processImports depth h t opts cbs
                       (st\<lparr>heap := heap st @ [m],
                           modules := AList.update (module_path m) (length (heap st)) (modules st)\<rparr>)
                       (length (heap st)) (module_path m) (parseResult_imports m) of
                  None \<Rightarrow> None
                | Some st1 \<Rightarrow> Some (Inr (Some (length (heap st))), st1))))"
| "processImports depth h t opts cbs st a modulePath [] = Some st"
| "processImports depth h t opts cbs st a modulePath (imp # imps) =
     (if imp_isTypeOnly imp then processImports depth h t opts cbs st a modulePath imps
      else
        (case resolve h (resolver_options h opts) (resolverState st) (source imp) (Some modulePath) of
           (Inl e, rs) \<Rightarrow>
             processImports depth h t opts cbs
               (st\<lparr>resolverState := rs,
                   warnings := warnings st @ [could_not_resolve (source imp) modulePath]\<rparr>)
               a modulePath imps
         | (Inr res, rs) \<Rightarrow>
             (if external_flag res then
                processImports depth h t opts cbs (st\<lparr>resolverState := rs\<rparr>) a modulePath imps
              else
                (case processModule depth h t opts cbs
                        (st\<lparr>resolverState := rs,
                            heap := (heap st)[a := push_dependency (dependency_of imp res) (heap st ! a)]\<rparr>)
                        (path res) False (imp_isDynamic imp) of
                   None \<Rightarrow> None
                 | Some (Inl e, st1) \<Rightarrow>
                     processImports depth h t opts cbs
                       (st1\<lparr>warnings := warnings st1 @ [could_not_resolve (source imp) modulePath]\<rparr>)
                       a modulePath imps
                 | Some (Inr None, st1) \<Rightarrow>
                     processImports depth h t opts cbs st1 a modulePath imps
                 | Some (Inr (Some depModule), st1) \<Rightarrow>
                     processImports depth h t opts cbs
                       (st1\<lparr>heap := (heap st1)[depModule := add_dependent modulePath (heap st1 ! depModule)]\<rparr>)
                       a modulePath imps))))"

text \<open>The loop of \<open>build\<close> over the entries: an error of \<open>processModule\<close> rejects the build.\<close>

fun processEntries ::
  "nat \<Rightarrow> host \<Rightarrow> tools \<Rightarrow> BundlerOptions \<Rightarrow> callbacks \<Rightarrow> bundler_state \<Rightarrow> string list
     \<Rightarrow> ((error + unit) \<times> bundler_state) option" where
  "processEntries depth h t opts cbs st [] = Some (Inr (), st)"
| "processEntries depth h t opts cbs st (e # es) =
     (case processModule depth h t opts cbs st (path_resolve (cwd h) [cwd h, e]) True False of
        None \<Rightarrow> None
      | Some (Inl err, st1) \<Rightarrow> Some (Inl err, st1)
      | Some (Inr m, st1) \<Rightarrow> processEntries depth h t opts cbs st1 es)"

subsection \<open>Tree shaking\<close>

text \<open>
  \<open>usedExports\<close> maps a module path to a set of export names. The entries start with
  \<open>*\<close>; a pass over the modules gives every dependency of a used module an entry and
  adds \<open>*\<close> to it; passes are repeated until one changes nothing. At the end a module
  is deleted when it has no entry in \<open>usedExports\<close> and its \<open>sideEffects\<close> flag is false.
\<close>

definition treeShake_init :: "(string \<times> Module) list \<Rightarrow> (string \<times> string list) list" where
  "treeShake_init ms =
     fold (\<lambda>(p, m) used. if isEntry m then AList.update p [''*''] used else used) ms []"

fun mark_dependencies ::
  "Dependency list \<Rightarrow> (string \<times> string list) list \<times> bool
     \<Rightarrow> (string \<times> string list) list \<times> bool" where
  "mark_dependencies [] (used, changed) = (used, changed)"
| "mark_dependencies (dep # deps) (used, changed) =
     (let (used1, changed1) =
            (if map_of used (dep_resolved dep) = None
             then (AList.update (dep_resolved dep) [] used, True) else (used, changed));
          depUsed = the (map_of used1 (dep_resolved dep))
      in if ''*'' \<notin> set depUsed
         then mark_dependencies deps (AList.update (dep_resolved dep) (depUsed @ [''*'']) used1, True)
         else mark_dependencies deps (used1, changed1))"

fun treeShake_pass ::
  "(string \<times> Module) list \<Rightarrow> (string \<times> string list) list \<times> bool
     \<Rightarrow> (string \<times> string list) list \<times> bool" where
  "treeShake_pass [] s = s"
| "treeShake_pass ((p, m) # ms) (used, changed) =
     (if map_of used p = None then treeShake_pass ms (used, changed)
      else treeShake_pass ms (mark_dependencies (dependencies m) (used, changed)))"

definition starred :: "(string \<times> string list) list \<Rightarrow> string set" where
  "starred used = {k. \<exists>names. map_of used k = Some names \<and> ''*'' \<in> set names}"

definition dependency_targets :: "(string \<times> Module) list \<Rightarrow> string set" where
  "dependency_targets ms = (\<Union>(p, m) \<in> set ms. dep_resolved ` set (dependencies m))"

lemma starred_update:
  "starred (AList.update k names used)
     = (if ''*'' \<in> set names then insert k (starred used) else starred used - {k})"
  by (auto simp: starred_def update_conv')

lemma mark_dependencies_starred:
  assumes "mark_dependencies deps (used, changed) = (used', changed')"
  shows "starred used \<subseteq> starred used'
         \<and> starred used' \<subseteq> starred used \<union> dep_resolved ` set deps
         \<and> (changed' \<longrightarrow> changed \<or> starred used \<noteq> starred used')"
  using assms
proof (induction deps arbitrary: used changed)
  case Nil
  then show ?case by simp
next
  case (Cons dep deps)
  let ?k = "dep_resolved dep"
  show ?case
  proof (cases "map_of used ?k")
    case None
    then have k: "?k \<notin> starred used" by (simp add: starred_def)
    from None Cons.prems
    have "mark_dependencies deps (AList.update ?k [''*''] (AList.update ?k [] used), True)
            = (used', changed')"
      by (simp add: update_conv')
    from Cons.IH[OF this] k show ?thesis
      by (auto simp: starred_update split: if_splits)
  next
    case (Some names)
    show ?thesis
    proof (cases "''*'' \<in> set names")
      case True
      with Some Cons.prems have "mark_dependencies deps (used, changed) = (used', changed')"
        by simp
      from Cons.IH[OF this] show ?thesis by auto
    next
      case False
      then have k: "?k \<notin> starred used" using Some by (simp add: starred_def)
      from False Some Cons.prems
      have "mark_dependencies deps (AList.update ?k (names @ [''*'']) used, True)
              = (used', changed')"
        by simp
      from Cons.IH[OF this] k show ?thesis
        by (auto simp: starred_update split: if_splits)
    qed
  qed
qed

lemma treeShake_pass_starred:
  assumes "treeShake_pass ms (used, changed) = (used', changed')"
  shows "starred used \<subseteq> starred used'
         \<and> starred used' \<subseteq> starred used \<union> dependency_targets ms
         \<and> (changed' \<longrightarrow> changed \<or> starred used \<noteq> starred used')"
  using assms
proof (induction ms arbitrary: used changed)
  case Nil
  then show ?case by simp
next
  case (Cons pm ms)
  obtain p m where pm: "pm = (p, m)" by (cases pm) auto
  have T: "dependency_targets (pm # ms) = dep_resolved ` set (dependencies m) \<union> dependency_targets ms"
    by (simp add: dependency_targets_def pm)
  show ?case
  proof (cases "map_of used p")
    case None
    with Cons.prems pm have "treeShake_pass ms (used, changed) = (used', changed')" by simp
    from Cons.IH[OF this] show ?thesis unfolding T by auto
  next
    case (Some names)
    obtain used1 changed1 where
      m1: "mark_dependencies (dependencies m) (used, changed) = (used1, changed1)"
      by (cases "mark_dependencies (dependencies m) (used, changed)") auto
    with Some Cons.prems pm have "treeShake_pass ms (used1, changed1) = (used', changed')"
      by simp
    from Cons.IH[OF this] mark_dependencies_starred[OF m1] show ?thesis
      unfolding T by blast
  qed
qed

lemma finite_dependency_targets: "finite (dependency_targets ms)"
  by (auto simp: dependency_targets_def)

function treeShake_loop ::
  "(string \<times> Module) list \<Rightarrow> (string \<times> string list) list \<Rightarrow> (string \<times> string list) list" where
  "treeShake_loop ms used =
     (case treeShake_pass ms (used, False) of
        (used1, changed) \<Rightarrow> if changed then treeShake_loop ms used1 else used1)"
  by pat_completeness auto
termination
proof (relation "measure (\<lambda>(ms, used). card (dependency_targets ms - starred used))", goal_cases)
  case 1
  show ?case by simp
next
  case (2 ms used x1 x2)
  then have p: "treeShake_pass ms (used, False) = (x1, True)" by simp
  from treeShake_pass_starred[OF p]
  have "starred used \<subset> starred x1" and "starred x1 \<subseteq> starred used \<union> dependency_targets ms"
    by auto
  then have "dependency_targets ms - starred x1 \<subset> dependency_targets ms - starred used"
    by blast
  then have "card (dependency_targets ms - starred x1) < card (dependency_targets ms - starred used)"
    by (intro psubset_card_mono) (simp_all add: finite_dependency_targets)
  then show ?case by simp
qed

definition treeShake :: "(string \<times> Module) list \<Rightarrow> (string \<times> Module) list" where
  "treeShake ms =
     (let usedExports = treeShake_loop ms (treeShake_init ms)
      in filter (\<lambda>(p, m). \<not> (map_of usedExports p = None \<and> \<not> sideEffects m)) ms)"

subsection \<open>Code splitting\<close>

text \<open>\<open>if (module.chunk)\<close>: the chunk is set, and not to the empty string.\<close>

definition has_chunk :: "Module \<Rightarrow> bool" where
  "has_chunk m = (case chunk m of Some c \<Rightarrow> c \<noteq> [] | None \<Rightarrow> False)"

definition entry_chunks :: "tools \<Rightarrow> (string \<times> Module) list \<Rightarrow> (string \<times> Module) list" where
  "entry_chunks t ms =
     map (\<lambda>(p, m). (p, if isEntry m
                         then m\<lparr>chunk := Some (''entry-'' @ take 6 (hashContent t p))\<rparr>
                         else m)) ms"

definition dynamic_chunks :: "tools \<Rightarrow> (string \<times> Module) list \<Rightarrow> (string \<times> Module) list" where
  "dynamic_chunks t ms =
     map (\<lambda>(p, m). (p, if isDynamic m \<and> \<not> has_chunk m
                         then m\<lparr>chunk := Some (''chunk-'' @ take 6 (hashContent t p))\<rparr>
                         else m)) ms"

text \<open>
  One pass of the loop that gives a module the chunk of the first of its dependents that
  has one. The pass runs over the keys of the map; a chunk assigned early in the pass is
  seen by the modules that come later.
\<close>

fun assign_pass ::
  "string list \<Rightarrow> (string \<times> Module) list \<times> bool \<Rightarrow> (string \<times> Module) list \<times> bool" where
  "assign_pass [] s = s"
| "assign_pass (p # ps) (ms, changed) =
     (case map_of ms p of
        None \<Rightarrow> assign_pass ps (ms, changed)
      | Some m \<Rightarrow>
          (if has_chunk m then assign_pass ps (ms, changed)
           else
             (case find (\<lambda>depPath. case map_of ms depPath of
                                      Some dep \<Rightarrow> has_chunk dep | None \<Rightarrow> False)
                     (dependents m) of
                Some depPath \<Rightarrow>
                  assign_pass ps
                    (AList.update p (m\<lparr>chunk := chunk (the (map_of ms depPath))\<rparr>) ms, True)
              | None \<Rightarrow> assign_pass ps (ms, changed))))"

definition unassigned :: "(string \<times> Module) list \<Rightarrow> nat" where
  "unassigned ms = length (filter (\<lambda>(p, m). \<not> has_chunk m) ms)"

lemma unassigned_update:
  assumes "map_of ms p = Some m" and "\<not> has_chunk m" and "has_chunk m'"
  shows "unassigned (AList.update p m' ms) < unassigned ms"
  using assms
proof (induction ms)
  case Nil
  then show ?case by simp
next
  case (Cons a ms)
  then show ?case by (cases a) (auto simp: unassigned_def split: if_splits)
qed

lemma assign_pass_unassigned:
  assumes "assign_pass ps (ms, changed) = (ms', changed')"
  shows "unassigned ms' \<le> unassigned ms \<and> (changed' \<longrightarrow> changed \<or> unassigned ms' < unassigned ms)"
  using assms
proof (induction ps arbitrary: ms changed)
  case Nil
  then show ?case by simp
next
  case (Cons p ps)
  show ?case
  proof (cases "map_of ms p")
    case None
    with Cons.prems have "assign_pass ps (ms, changed) = (ms', changed')" by simp
    from Cons.IH[OF this] show ?thesis .
  next
    case (Some m)
    show ?thesis
    proof (cases "has_chunk m")
      case True
      with Some Cons.prems have "assign_pass ps (ms, changed) = (ms', changed')" by simp
      from Cons.IH[OF this] show ?thesis .
    next
      case False
      show ?thesis
      proof (cases "find (\<lambda>depPath. case map_of ms depPath of
                                      Some dep \<Rightarrow> has_chunk dep | None \<Rightarrow> False) (dependents m)")
        case None
        with False Some Cons.prems have "assign_pass ps (ms, changed) = (ms', changed')" by simp
        from Cons.IH[OF this] show ?thesis .
      next
        case found: (Some depPath)
        then have "case map_of ms depPath of Some dep \<Rightarrow> has_chunk dep | None \<Rightarrow> False"
          by (auto simp: find_Some_iff)
        then obtain dep where d: "map_of ms depPath = Some dep" "has_chunk dep"
          by (auto split: option.splits)
        then have hc: "has_chunk (m\<lparr>chunk := chunk (the (map_of ms depPath))\<rparr>)"
          by (simp add: has_chunk_def)
        from found False Some Cons.prems
        have "assign_pass ps (AList.update p (m\<lparr>chunk := chunk (the (map_of ms depPath))\<rparr>) ms, True)
                = (ms', changed')"
          by simp
        from Cons.IH[OF this] unassigned_update[OF Some False hc] show ?thesis by auto
      qed
    qed
  qed
qed

function assign_loop :: "(string \<times> Module) list \<Rightarrow> (string \<times> Module) list" where
  "assign_loop ms =
     (case assign_pass (map fst ms) (ms, False) of
        (ms1, changed) \<Rightarrow> if changed then assign_loop ms1 else ms1)"
  by pat_completeness auto
termination
proof (relation "measure unassigned", goal_cases)
  case 1
  show ?case by simp
next
  case (2 ms x1 x2)
  then have "assign_pass (map fst ms) (ms, False) = (x1, True)" by simp
  from assign_pass_unassigned[OF this] show ?case by simp
qed

text \<open>
  \<open>[...this.modules.values()].find(m => m.isEntry)?.chunk\<close>, and the chunk of the
  modules still without one: \<open>firstEntryChunk || 'main'\<close>.
\<close>

definition fallback_chunk :: "(string \<times> Module) list \<Rightarrow> string" where
  "fallback_chunk ms =
     (case find (\<lambda>(p, m). isEntry m) ms of
        Some (p, m) \<Rightarrow> (if has_chunk m then the (chunk m) else ''main'')
      | None \<Rightarrow> ''main'')"

definition splitCode :: "tools \<Rightarrow> (string \<times> Module) list \<Rightarrow> (string \<times> Module) list" where
  "splitCode t ms =
     (let ms1 = assign_loop (dynamic_chunks t (entry_chunks t ms))
      in map (\<lambda>(p, m). (p, if has_chunk m then m else m\<lparr>chunk := Some (fallback_chunk ms1)\<rparr>)) ms1)"

definition createSingleChunk :: "(string \<times> Module) list \<Rightarrow> (string \<times> Module) list" where
  "createSingleChunk ms = map (\<lambda>(p, m). (p, m\<lparr>chunk := Some ''bundle''\<rparr>)) ms"

subsection \<open>The order of the modules of a chunk\<close>

text \<open>
  \<open>topologicalSort\<close>:
  \<^verbatim>\<open>
  const visit = (module: Module) => {
    if (visited.has(module.path)) return;
    if (visiting.has(module.path)) return; // Circular dependency
    visiting.add(module.path);
    for (const dep of module.dependencies) {
      const depModule = this.modules.get(dep.resolved);
      if (depModule && modules.includes(depModule)) visit(depModule);
    }
    visiting.delete(module.path);
    visited.add(module.path);
    result.push(module);
  };
  for (const module of modules) visit(module);
  \<close>
  \<open>visiting\<close> holds the paths of the modules whose visit is under way: a path is added
  before the loop over the dependencies and removed after it, so the set is the same
  after a call as before. It is an argument of the model; \<open>result\<close> and \<open>visited\<close> are
  threaded through.
\<close>

function visit ::
  "(string \<times> Module) list \<Rightarrow> Module list \<Rightarrow> string list \<Rightarrow> Module
     \<Rightarrow> Module list \<times> string list \<Rightarrow> Module list \<times> string list" where
  "visit ms mods visiting m (result, visited) =
     (if module_path m \<in> set visited then (result, visited)
      else if module_path m \<in> set visiting then (result, visited)
      else
        (case fold (\<lambda>dep s.
                      (case map_of ms (dep_resolved dep) of
                         Some depModule \<Rightarrow>
                           if depModule \<in> set mods
                           then visit ms mods (module_path m # visiting) depModule s else s
                       | None \<Rightarrow> s))
                (dependencies m) (result, visited) of
           (result1, visited1) \<Rightarrow> (result1 @ [m], visited1 @ [module_path m])))"
  by pat_completeness auto
termination
proof (relation "measures
    [\<lambda>(ms, mods, visiting, m, s). card (module_path ` set mods - set visiting),
     \<lambda>(ms, mods, visiting, m, s). if m \<in> set mods then 0 else 1]", goal_cases)
  case 1
  show ?case by simp
next
  case (2 ms mods visiting m result visited dep s depModule)
  show ?case
  proof (cases "m \<in> set mods")
    case True
    then have "module_path m \<in> module_path ` set mods - set visiting" using 2 by simp
    then have "card (module_path ` set mods - set (module_path m # visiting))
                 < card (module_path ` set mods - set visiting)"
      by (intro psubset_card_mono) auto
    then show ?thesis by simp
  next
    case False
    have "card (module_path ` set mods - set (module_path m # visiting))
            \<le> card (module_path ` set mods - set visiting)"
      by (intro card_mono) auto
    then show ?thesis using False 2 by auto
  qed
qed

definition topologicalSort :: "(string \<times> Module) list \<Rightarrow> Module list \<Rightarrow> Module list" where
  "topologicalSort ms mods = fst (fold (visit ms mods []) mods ([], []))"

subsection \<open>Chunks and the build\<close>

definition chunk_or_main :: "Module \<Rightarrow> string" where
  "chunk_or_main m = (if has_chunk m then the (chunk m) else ''main'')"

definition group_by_chunk :: "(string \<times> Module) list \<Rightarrow> (string \<times> Module list) list" where
  "group_by_chunk ms =
     fold (\<lambda>(p, m) groups.
             AList.update (chunk_or_main m)
               ((case map_of groups (chunk_or_main m) of Some g \<Rightarrow> g | None \<Rightarrow> []) @ [m]) groups)
       ms []"

definition generateChunks :: "(string \<times> Module) list \<Rightarrow> Chunk list" where
  "generateChunks ms =
     map (\<lambda>(chunkId, mods).
            \<lparr>chunk_id = chunkId,
             chunk_name = (if list_ex isEntry mods then ''index'' else chunkId),
             chunk_modules = map module_id (topologicalSort ms mods),
             chunk_isEntry = list_ex isEntry mods,
             chunk_isDynamic = (list_ex isDynamic mods \<and> \<not> list_ex isEntry mods)\<rparr>)
       (group_by_chunk ms)"

text \<open>
  \<open>Bundler.build\<close>: the plugins are set up, the entries are processed in order, then
  come tree shaking, code splitting and the chunks. \<open>onProgress\<close> is called before each
  stage; nothing in \<open>build\<close> stands in a \<open>try\<close>, so an error of a setup, of \<open>onProgress\<close>
  or of \<open>processModule\<close> on an entry rejects the build. The state returned with the
  result is the one the entries left.
\<close>

definition progress :: "BundlerOptions \<Rightarrow> bool \<Rightarrow> string \<Rightarrow> error option" where
  "progress opts enabled message = (if enabled then onProgress opts message else None)"

definition build ::
  "nat \<Rightarrow> host \<Rightarrow> tools \<Rightarrow> BundlerOptions \<Rightarrow> ((error + BundleOutput) \<times> bundler_state) option" where
  "build depth h t opts =
     (case setupPlugins (plugins opts) no_callbacks of
        Inl e \<Rightarrow> Some (Inl e, new_bundler_state)
      | Inr cbs \<Rightarrow>
          (case onProgress opts ''Building dependency graph...'' of
             Some e \<Rightarrow> Some (Inl e, new_bundler_state)
           | None \<Rightarrow>
               (case processEntries depth h t opts cbs new_bundler_state (entry opts) of
                  None \<Rightarrow> None
                | Some (Inl e, st) \<Rightarrow> Some (Inl e, st)
                | Some (Inr u, st) \<Rightarrow>
                    (case progress opts (treeshake opts) ''Tree shaking...'' of
                       Some e \<Rightarrow> Some (Inl e, st)
                     | None \<Rightarrow>
                         (let ms1 = (if treeshake opts then treeShake (modules_of st)
                                     else modules_of st)
                          in case progress opts (splitting opts) ''Code splitting...'' of
                               Some e \<Rightarrow> Some (Inl e, st)
                             | None \<Rightarrow>
                                 (let ms2 = (if splitting opts then splitCode t ms1
                                             else createSingleChunk ms1)
                                  in case onProgress opts ''Generating bundles...'' of
                                       Some e \<Rightarrow> Some (Inl e, st)
                                     | None \<Rightarrow>
                                         Some (Inr \<lparr>chunks = generateChunks ms2,
                                                    output_modules = ms2\<rparr>, st)))))))"

subsection \<open>Projects to build\<close>

text \<open>
  Tools given by a table from source text to the imports the parser reports for it. The
  digest is a fixed string: the examples have one entry, or no code splitting. The source
  texts of the examples are written without the quotation marks around their specifiers.
\<close>

definition tools_of :: "(string \<times> ImportInfo list) list \<Rightarrow> tools" where
  "tools_of table =
     \<lparr>parse_imports = (\<lambda>src. case map_of table src of Some imps \<Rightarrow> imps | None \<Rightarrow> []),
      hashContent = (\<lambda>_. ''0a1b2c3d'')\<rparr>"

definition static_import :: "string \<Rightarrow> ImportInfo" where
  "static_import s = \<lparr>source = s, imp_isDynamic = False, imp_isTypeOnly = False\<rparr>"

definition dynamic_import :: "string \<Rightarrow> ImportInfo" where
  "dynamic_import s = \<lparr>source = s, imp_isDynamic = True, imp_isTypeOnly = False\<rparr>"

definition default_options :: "string list \<Rightarrow> BundlerOptions" where
  "default_options entries =
     \<lparr>entry = entries, target_opt = Browser, splitting = True, treeshake = True,
      external_names = [], alias_map = [], define_map = [], plugins = [],
      onProgress = (\<lambda>_. None)\<rparr>"

text \<open>
  \<open>/p/main.js\<close> is \<open>import './missing'; import './a.js'\<close> and \<open>/p/a.js\<close> is
  \<open>export const x = 1\<close>; there is no \<open>/p/missing\<close>.
\<close>

definition missing_import_host :: host where
  "missing_import_host =
     host_of
       [(''/p'', IsDirectory), (''/p/main.js'', IsFile), (''/p/a.js'', IsFile)]
       []
       [(''/p/main.js'', ''import ./missing; import ./a.js''), (''/p/a.js'', ''export const x = 1'')]"

definition missing_import_tools :: tools where
  "missing_import_tools =
     tools_of [(''import ./missing; import ./a.js'',
                [static_import ''./missing'', static_import ''./a.js''])]"

text \<open>
  \<open>/p/main.js\<close> imports \<open>pkg\<close>; \<open>/p/node_modules/pkg/package.json\<close> is
  \<open>{"main": "./i.js", "sideEffects": false}\<close>.
\<close>

definition pure_pkg :: json where
  "pure_pkg = JObj [(''main'', JStr ''./i.js''), (''sideEffects'', JBool False)]"

definition pure_pkg_host :: host where
  "pure_pkg_host =
     host_of
       [(''/p'', IsDirectory), (''/p/main.js'', IsFile), (''/p/node_modules'', IsDirectory),
        (''/p/node_modules/pkg'', IsDirectory), (''/p/node_modules/pkg/package.json'', IsFile),
        (''/p/node_modules/pkg/i.js'', IsFile)]
       [(''/p/node_modules/pkg/package.json'', pure_pkg)]
       [(''/p/main.js'', ''import pkg''), (''/p/node_modules/pkg/i.js'', ''export const y = 2'')]"

definition pure_pkg_tools :: tools where
  "pure_pkg_tools = tools_of [(''import pkg'', [static_import ''pkg''])]"

text \<open>
  \<open>/p/e.js\<close>, the entry, is \<open>import('./a.js')\<close> and \<open>/p/a.js\<close> is \<open>import './e.js'\<close>:
  a dynamic edge from \<open>e.js\<close> to \<open>a.js\<close> and a static edge back.
\<close>

definition mixed_cycle_host :: host where
  "mixed_cycle_host =
     host_of
       [(''/p'', IsDirectory), (''/p/e.js'', IsFile), (''/p/a.js'', IsFile)]
       []
       [(''/p/e.js'', ''import(./a.js)''), (''/p/a.js'', ''import ./e.js'')]"

definition mixed_cycle_tools :: tools where
  "mixed_cycle_tools =
     tools_of [(''import(./a.js)'', [dynamic_import ''./a.js'']),
               (''import ./e.js'', [static_import ''./e.js''])]"

text \<open>
  \<open>/p/e.js\<close>, the entry, is \<open>import('./a.js')\<close>, \<open>/p/a.js\<close> is
  \<open>import './e.js'; import './c.js'\<close> and \<open>/p/c.js\<close> is \<open>export const c = 1\<close>: the
  cycle of \<open>mixed_cycle_host\<close> with one more static edge, from \<open>a.js\<close> to \<open>c.js\<close>.
\<close>

definition leaf_cycle_host :: host where
  "leaf_cycle_host =
     host_of
       [(''/p'', IsDirectory), (''/p/e.js'', IsFile), (''/p/a.js'', IsFile), (''/p/c.js'', IsFile)]
       []
       [(''/p/e.js'', ''import(./a.js)''), (''/p/a.js'', ''import ./e.js; import ./c.js''),
        (''/p/c.js'', ''export const c = 1'')]"

definition leaf_cycle_tools :: tools where
  "leaf_cycle_tools =
     tools_of [(''import(./a.js)'', [dynamic_import ''./a.js'']),
               (''import ./e.js; import ./c.js'', [static_import ''./e.js'', static_import ''./c.js''])]"

subsection \<open>Dependency edges inside a chunk\<close>

text \<open>
  The modules that \<open>visit\<close> goes to from \<open>m\<close>: for each dependency, the module stored
  under the resolved path, when it belongs to the chunk. \<open>chunk_edges\<close> lists the pairs
  \<open>(a, b)\<close> with \<open>a\<close> in the chunk and \<open>b\<close> among these for \<open>a\<close>, static and dynamic
  dependencies alike; \<open>static_chunk_edges\<close> keeps the dependencies that are not dynamic.
\<close>

definition chunk_successors :: "(string \<times> Module) list \<Rightarrow> Module list \<Rightarrow> Dependency list \<Rightarrow> Module list" where
  "chunk_successors ms mods deps =
     concat (map (\<lambda>dep. case map_of ms (dep_resolved dep) of
                           Some depModule \<Rightarrow> if depModule \<in> set mods then [depModule] else []
                         | None \<Rightarrow> []) deps)"

definition chunk_edges :: "(string \<times> Module) list \<Rightarrow> Module list \<Rightarrow> (Module \<times> Module) list" where
  "chunk_edges ms mods =
     concat (map (\<lambda>a. map (\<lambda>b. (a, b)) (chunk_successors ms mods (dependencies a))) mods)"

definition static_chunk_edges :: "(string \<times> Module) list \<Rightarrow> Module list \<Rightarrow> (Module \<times> Module) list" where
  "static_chunk_edges ms mods =
     concat (map (\<lambda>a. map (\<lambda>b. (a, b))
                    (chunk_successors ms mods (filter (\<lambda>dep. \<not> dep_isDynamic dep) (dependencies a))))
               mods)"

text \<open>\<open>comes_before xs y x\<close>: \<open>x\<close> is in the list and \<open>y\<close> stands before its first occurrence.\<close>

definition comes_before :: "'a list \<Rightarrow> 'a \<Rightarrow> 'a \<Rightarrow> bool" where
  "comes_before xs y x = (x \<in> set xs \<and> y \<in> set (takeWhile (\<lambda>z. z \<noteq> x) xs))"

subsection \<open>Reading the outcome of a build\<close>

definition built_modules ::
  "((error + BundleOutput) \<times> bundler_state) option \<Rightarrow> (string \<times> Module) list" where
  "built_modules r = (case r of Some (Inr out, st) \<Rightarrow> output_modules out | _ \<Rightarrow> [])"



definition build_succeeded :: "((error + BundleOutput) \<times> bundler_state) option \<Rightarrow> bool" where
  "build_succeeded r = (case r of Some (Inr out, st) \<Rightarrow> True | _ \<Rightarrow> False)"

definition edge_ids :: "(Module \<times> Module) list \<Rightarrow> (string \<times> string) list" where
  "edge_ids es = map (\<lambda>(a, b). (module_id a, module_id b)) es"

definition module_keys :: "bundler_state \<Rightarrow> string set" where
  "module_keys st = fst ` set (modules st)"

definition missing_import_modules :: "(string \<times> Module) list" where
  "missing_import_modules =
     built_modules (build 10 missing_import_host missing_import_tools (default_options [''main.js'']))"

definition mixed_cycle_modules :: "(string \<times> Module) list" where
  "mixed_cycle_modules =
     built_modules (build 10 mixed_cycle_host mixed_cycle_tools
                      ((default_options [''e.js''])\<lparr>splitting := False\<rparr>))"

definition leaf_cycle_modules :: "(string \<times> Module) list" where
  "leaf_cycle_modules =
     built_modules (build 10 leaf_cycle_host leaf_cycle_tools
                      ((default_options [''e.js''])\<lparr>splitting := False\<rparr>))"

text \<open>The module stored under a path.\<close>

definition module_at :: "(string \<times> Module) list \<Rightarrow> string \<Rightarrow> Module" where
  "module_at ms p = the (map_of ms p)"

subsection \<open>What becomes of an import\<close>


text \<open>
  \<open>creates_within\<close>: a module is created only from a path of \<open>S\<close>, and under that very
  path (no resolve callback sends it elsewhere).
\<close>

definition creates_within :: "host \<Rightarrow> tools \<Rightarrow> BundlerOptions \<Rightarrow> callbacks \<Rightarrow> string set \<Rightarrow> bool" where
  "creates_within h t opts cbs S =
     (\<forall>p ie idy m. createModule h t opts cbs p ie idy = Inr (Some m) \<longrightarrow> module_path m = p \<and> p \<in> S)"



text \<open>
  \<open>grows st st'\<close>: from \<open>st\<close> to \<open>st'\<close> warnings and keys were added, objects were added
  to the store, and the objects of \<open>st\<close> kept their path and imports and gained
  dependencies.
\<close>

definition grows :: "bundler_state \<Rightarrow> bundler_state \<Rightarrow> bool" where
  "grows st st' =
     (set (warnings st) \<subseteq> set (warnings st') \<and> module_keys st \<subseteq> module_keys st'
      \<and> length (heap st) \<le> length (heap st')
      \<and> (\<forall>i<length (heap st).
             set (dependencies (heap st ! i)) \<subseteq> set (dependencies (heap st' ! i))
             \<and> parseResult_imports (heap st' ! i) = parseResult_imports (heap st ! i)
             \<and> module_path (heap st' ! i) = module_path (heap st ! i)))"


subsection \<open>Invariant of the visit\<close>

text \<open>
  What holds of \<open>result\<close> and \<open>visited\<close> between two calls of \<open>visit\<close>: \<open>visited\<close>
  lists the paths of \<open>result\<close>, \<open>result\<close> holds modules of the chunk, and every module
  of \<open>result\<close> has before it the target of each of its edges from which no path of
  edges leads back to the module. \<open>visit_post\<close> relates the state
  before a call to the state after it: \<open>result\<close> has grown at its end, by modules that
  are not being visited.
\<close>

definition sorted_inv :: "(string \<times> Module) list \<Rightarrow> Module list \<Rightarrow> Module list \<times> string list \<Rightarrow> bool" where
  "sorted_inv ms mods s =
     (snd s = map module_path (fst s) \<and> set (fst s) \<subseteq> set mods
      \<and> (\<forall>x\<in>set (fst s). \<forall>y. (x, y) \<in> set (chunk_edges ms mods)
             \<and> (y, x) \<notin> (set (chunk_edges ms mods))\<^sup>*
           \<longrightarrow> comes_before (fst s) y x))"

definition visit_post ::
  "(string \<times> Module) list \<Rightarrow> Module list \<Rightarrow> string list \<Rightarrow> Module list \<times> string list
     \<Rightarrow> Module list \<times> string list \<Rightarrow> bool" where
  "visit_post ms mods stk s s' =
     (sorted_inv ms mods s'
      \<and> (\<exists>extra. fst s' = fst s @ extra \<and> (\<forall>x\<in>set extra. module_path x \<notin> set stk)))"

text \<open>Projections used to state results.\<close>

definition result_of :: "error + 'a \<Rightarrow> 'a option" where
  "result_of r = (case r of Inr x \<Rightarrow> Some x | Inl e \<Rightarrow> None)"

definition sideEffects_flags :: "(string \<times> Module) list \<Rightarrow> (string \<times> bool) list" where
  "sideEffects_flags ms = map (\<lambda>(p, m). (p, sideEffects m)) ms"

section \<open>The dev server: rebuilding\<close>

text \<open>
  The state of the \<open>DevServer\<close> that \<open>rebuild\<close> touches: the bundle being served, the
  flag \<open>isRebuilding\<close>, the connected clients with the state of their sockets, the
  messages sent so far, in order, and the bundles handed to \<open>options.onRebuild\<close>. The
  clock (\<open>Date.now()\<close>) is read as one value for the whole rebuild.
\<close>

datatype ready_state = CONNECTING | OPEN | CLOSING | CLOSED

record HMRUpdate =
  update_type :: string
  update_path :: string
  acceptedPath :: string
  update_timestamp :: nat

datatype HMRMessage =
    ConnectedMessage nat
  | UpdateMessage nat "HMRUpdate list"
  | FullReloadMessage nat
  | ErrorMessage string

record dev_server =
  currentBundle :: "BundleOutput option"
  isRebuilding :: bool
  clients :: "(nat \<times> ready_state) list"
  sent :: "(nat \<times> HMRMessage) list"
  onRebuild_calls :: "BundleOutput list"

text \<open>\<open>error.message\<close>; the errors of the runtime carry a text of their own.\<close>

fun message_of :: "error \<Rightarrow> string" where
  "message_of (Error m) = m"
| "message_of TypeError = ''TypeError''"
| "message_of RegExpSyntaxError = ''Invalid regular expression''"
| "message_of RangeError = ''Maximum call stack size exceeded''"

definition open_clients :: "dev_server \<Rightarrow> nat list" where
  "open_clients ds = map fst (filter (\<lambda>(c, rs). rs = OPEN) (clients ds))"

definition broadcast :: "dev_server \<Rightarrow> HMRMessage \<Rightarrow> dev_server" where
  "broadcast ds msg = ds\<lparr>sent := sent ds @ map (\<lambda>c. (c, msg)) (open_clients ds)\<rparr>"

definition getUpdates :: "host \<Rightarrow> BundleOutput \<Rightarrow> string \<Rightarrow> nat \<Rightarrow> HMRUpdate list" where
  "getUpdates h newBundle changedFile now =
     (let ext = toLowerCase (path_extname changedFile)
      in if ext = ''.css'' then
           [\<lparr>update_type = ''css'', update_path = changedFile, acceptedPath = changedFile,
             update_timestamp = now\<rparr>]
         else if ext \<in> set [''.js'', ''.jsx'', ''.ts'', ''.tsx'', ''.mjs''] then
           map (\<lambda>c. \<lparr>update_type = ''js'', update_path = ''/'' @ chunk_name c @ ''.js'',
                       acceptedPath = changedFile, update_timestamp = now\<rparr>)
             (filter (\<lambda>c. generateModuleId h changedFile \<in> set (chunk_modules c))
                (chunks newBundle))
         else [])"

text \<open>
  \<open>rebuild\<close> after \<open>await this.bundler.build()\<close> has settled with \<open>built\<close>:
  \<^verbatim>\<open>
  try {
    const newBundle = await this.bundler.build();
    const updates = this.getUpdates(this.currentBundle, newBundle, changedFile);
    this.currentBundle = newBundle;
    this.options.onRebuild(newBundle);
    if (updates.length > 0) this.broadcast({ type: 'update', ... });
    else this.broadcast({ type: 'full-reload', ... });
  } catch (error) {
    this.broadcast({ type: 'error', error: { message: error.message, stack: error.stack } });
  } finally { this.isRebuilding = false; }
  \<close>
  \<open>onRebuild\<close> is the callback of the options; \<open>Some e\<close> means that it throws \<open>e\<close>.
\<close>

definition finish_rebuild ::
  "host \<Rightarrow> (BundleOutput \<Rightarrow> error option) \<Rightarrow> dev_server \<Rightarrow> error + BundleOutput \<Rightarrow> string \<Rightarrow> nat
     \<Rightarrow> dev_server" where
  "finish_rebuild h onRebuild ds built changedFile now =
     (case built of
        Inl e \<Rightarrow> (broadcast ds (ErrorMessage (message_of e)))\<lparr>isRebuilding := False\<rparr>
      | Inr newBundle \<Rightarrow>
          (let updates = getUpdates h newBundle changedFile now;
               ds1 = ds\<lparr>currentBundle := Some newBundle,
                        onRebuild_calls := onRebuild_calls ds @ [newBundle]\<rparr>
           in case onRebuild newBundle of
                Some e \<Rightarrow> (broadcast ds1 (ErrorMessage (message_of e)))\<lparr>isRebuilding := False\<rparr>
              | None \<Rightarrow>
                  (broadcast ds1 (if updates \<noteq> [] then UpdateMessage now updates
                                  else FullReloadMessage now))\<lparr>isRebuilding := False\<rparr>))"

text \<open>
  \<open>rebuild(changedFile)\<close>: nothing happens while a rebuild is under way; otherwise a new
  \<open>Bundler\<close> is made from the bundler options and built. \<open>None\<close>: the build did not
  return within the depth given.
\<close>

definition rebuild ::
  "nat \<Rightarrow> host \<Rightarrow> tools \<Rightarrow> BundlerOptions \<Rightarrow> (BundleOutput \<Rightarrow> error option) \<Rightarrow> dev_server
     \<Rightarrow> string \<Rightarrow> nat \<Rightarrow> dev_server option" where
  "rebuild depth h t opts onRebuild ds changedFile now =
     (if isRebuilding ds then Some ds
      else (case build depth h t opts of
              None \<Rightarrow> None
            | Some (built, st) \<Rightarrow> Some (finish_rebuild h onRebuild ds built changedFile now)))"

text \<open>
  A server that serves the bundle of the project of \<open>missing_import_host\<close> to two
  clients, the socket of the second one closed.
\<close>

definition serving :: dev_server where
  "serving =
     \<lparr>currentBundle =
        result_of (the (map_option fst
          (build 10 missing_import_host missing_import_tools (default_options [''main.js''])))),
      isRebuilding = False, clients = [(1, OPEN), (2, CLOSED)], sent = [], onRebuild_calls = []\<rparr>"

text \<open>The same project after \<open>/p/main.js\<close> has been deleted.\<close>

definition deleted_entry_host :: host where
  "deleted_entry_host =
     host_of [(''/p'', IsDirectory), (''/p/a.js'', IsFile)] []
       [(''/p/a.js'', ''export const x = 1'')]"

section \<open>Properties\<close>

subsection \<open>Compile-time substitution is purely textual\<close>

lemma getSubstitution_no_dollar:
  "CHR ''$'' \<notin> set val \<Longrightarrow> getSubstitution m b a val = val"
  by (induction m b a val rule: getSubstitution.induct) auto

lemma startsWith_beyond:
  assumes "key \<noteq> []" and "\<not> startsWith (s @ butlast key) key" and "s \<noteq> []"
  shows "\<not> startsWith (s @ key @ r) key"
proof
  assume "startsWith (s @ key @ r) key"
  then have t: "take (length key) (s @ key @ r) = key" by (simp add: startsWith_def)
  have len: "length key \<le> length (s @ butlast key)"
    using assms(1,3) by (cases key; cases s) auto
  have "s @ key @ r = (s @ butlast key) @ (last key # r)"
    using assms(1) by simp
  then have "take (length key) (s @ key @ r) = take (length key) (s @ butlast key)"
    using len by (metis append_eq_conv_conj take_append take_all_iff diff_is_0_eq' take_0 append_Nil2)
  then show False using t assms(2) by (simp add: startsWith_def)
qed

lemma replace_global_leftmost:
  assumes "key \<noteq> []" and "\<not> includes_str (l @ butlast key) key"
  shows "replace_global key val preceding (l @ key @ r)
           = l @ getSubstitution key (preceding @ l) r val
               @ replace_global key val (preceding @ l @ key) r"
  using assms
proof (induction l arbitrary: preceding)
  case Nil
  obtain c ks where k: "key = c # ks" using Nil.prems(1) by (cases key) auto
  show ?case by (simp add: k startsWith_def)
next
  case (Cons a l)
  have "\<not> startsWith ((a # l) @ butlast key) key"
    using Cons.prems(2) by simp
  then have "\<not> startsWith ((a # l) @ key @ r) key"
    using Cons.prems(1) by (intro startsWith_beyond) simp_all
  moreover have "\<not> includes_str (l @ butlast key) key"
    using Cons.prems(2) by simp
  ultimately show ?case
    using Cons.IH[of "preceding @ [a]"] Cons.prems(1) by simp
qed

lemma replace_global_absent:
  assumes "key \<noteq> []" and "\<not> includes_str s key"
  shows "replace_global key val preceding s = s"
  using assms
proof (induction s arbitrary: preceding)
  case Nil
  then show ?case by simp
next
  case (Cons a s)
  then show ?case by simp
qed

lemma replace_global_before_irrelevant:
  assumes "CHR ''$'' \<notin> set val"
  shows "replace_global key val b1 s = replace_global key val b2 s"
  using assms
proof (induction key val b1 s arbitrary: b2 rule: replace_global.induct)
  case (1 key val preceding)
  then show ?case by (simp add: getSubstitution_no_dollar)
next
  case (2 key val preceding c s)
  show ?case
  proof (cases "key = []")
    case True
    then show ?thesis
      using 2(1)[OF True 2(4), of "b2 @ [c]"] 2(4) by (simp add: getSubstitution_no_dollar)
  next
    case False
    show ?thesis
    proof (cases "startsWith (c # s) key")
      case True
      then show ?thesis
        using False 2(2)[OF False True 2(4), of "b2 @ key"] 2(4)
        by (simp add: getSubstitution_no_dollar)
    next
      case nomatch: False
      then show ?thesis
        using False 2(3)[OF False nomatch 2(4), of "b2 @ [c]"] by simp
    qed
  qed
qed

lemma replace_global_empty_key:
  "replace_global [] val preceding s = insert_everywhere val preceding s"
proof (induction s arbitrary: preceding)
  case Nil
  then show ?case by (simp add: insert_everywhere_def)
next
  case (Cons a s)
  have "[0..<Suc (Suc (length s))] = 0 # map Suc [0..<Suc (length s)]"
    by (subst upt_conv_Cons) (simp_all only: zero_less_Suc map_Suc_upt)
  then show ?case
    using Cons.IH[of "preceding @ [a]"]
    by (simp add: insert_everywhere_def comp_def del: upt_Suc)
qed

lemma applyDefines_entry:
  "applyDefines (d1 @ (key, val) # d2) code
     = applyDefines d2 (replace_global key val [] (applyDefines d1 code))"
  by (simp add: applyDefines_def)

text \<open>
  Claim C6, as stated: substitution touches only occurrences on token boundaries that are
  reads, and leaves string literals and comments alone. The code replaces the text of the
  key wherever it stands: inside a string literal, inside a comment, inside a longer
  identifier and on the left of an assignment.
\<close>

theorem applyDefines_not_token_aware:
  \<open>applyDefines [(''DEBUG'', ''false'')] ''s = "DEBUG"; // DEBUG'' = ''s = "false"; // false''
   \<and> applyDefines [(''DEBUG'', ''false'')] ''MY_DEBUG2 = 1'' = ''MY_false2 = 1''\<close>
  by (simp add: applyDefines_def startsWith_def)

text \<open>
  Claim C6, amended: the entries of the define map are applied one after another, in the
  order of \<open>Object.entries\<close>, each to the text left by the entries before it (\<open>d1\<close>) and
  ahead of the ones after it (\<open>d2\<close>). For a non-empty key the leftmost occurrence of the
  key's text is replaced whatever surrounds it (\<open>l\<close> and \<open>r\<close> are arbitrary: quotes,
  comment markers, identifier characters, an assignment) by the value with \<open>$$\<close>, \<open>$&\<close>,
  \<open>$`\<close> and \<open>$'\<close> expanded, and the replacement goes on in the text after the
  occurrence; a text without the key stays as it is. A value without \<open>$\<close> is inserted
  as it stands, and the rest is replaced as a text of its own. An empty key inserts the
  value before every character and at the end.
\<close>

theorem applyDefines_textual:
  "(key \<noteq> [] \<and> applyDefines d1 code = l @ key @ r \<and> \<not> occurs key (l @ butlast key)
      \<longrightarrow> applyDefines (d1 @ (key, val) # d2) code
            = applyDefines d2
                (l @ getSubstitution key l r val @ replace_global key val (l @ key) r))
   \<and> (key \<noteq> [] \<and> \<not> occurs key (applyDefines d1 code)
      \<longrightarrow> applyDefines (d1 @ (key, val) # d2) code = applyDefines d2 (applyDefines d1 code))
   \<and> (CHR ''$'' \<notin> set val
      \<longrightarrow> getSubstitution key l r val = val
          \<and> replace_global key val (l @ key) r = applyDefines [(key, val)] r)
   \<and> applyDefines (d1 @ ([], val) # d2) code
       = applyDefines d2 (insert_everywhere val [] (applyDefines d1 code))"
proof (intro conjI impI)
  assume a: "key \<noteq> [] \<and> applyDefines d1 code = l @ key @ r \<and> \<not> occurs key (l @ butlast key)"
  then have "replace_global key val [] (l @ key @ r)
               = l @ getSubstitution key ([] @ l) r val @ replace_global key val ([] @ l @ key) r"
    by (intro replace_global_leftmost) (simp_all add: occurs_def)
  then show "applyDefines (d1 @ (key, val) # d2) code
               = applyDefines d2 (l @ getSubstitution key l r val @ replace_global key val (l @ key) r)"
    using a by (simp add: applyDefines_entry)
next
  assume "key \<noteq> [] \<and> \<not> occurs key (applyDefines d1 code)"
  then show "applyDefines (d1 @ (key, val) # d2) code = applyDefines d2 (applyDefines d1 code)"
    by (simp add: applyDefines_entry replace_global_absent occurs_def)
next
  assume "CHR ''$'' \<notin> set val"
  then show "getSubstitution key l r val = val" by (rule getSubstitution_no_dollar)
next
  assume "CHR ''$'' \<notin> set val"
  then have "replace_global key val (l @ key) r = replace_global key val [] r"
    by (rule replace_global_before_irrelevant)
  then show "replace_global key val (l @ key) r = applyDefines [(key, val)] r"
    by (simp add: applyDefines_def)
next
  show "applyDefines (d1 @ ([], val) # d2) code
          = applyDefines d2 (insert_everywhere val [] (applyDefines d1 code))"
    by (simp add: applyDefines_entry replace_global_empty_key)
qed


theorem applyDefines_textual_witness:
  "''B'' \<noteq> [] \<and> applyDefines [(''A'', ''B'')] ''ABA'' = [] @ ''B'' @ ''BB''
   \<and> \<not> occurs ''B'' ([] @ butlast ''B'')
   \<and> applyDefines ([(''A'', ''B'')] @ (''B'', ''C'') # []) ''ABA'' = ''CCC''
   \<and> \<not> occurs ''B'' (applyDefines [(''A'', ''x'')] ''AyA'')
   \<and> applyDefines ([(''A'', ''x'')] @ (''B'', ''C'') # []) ''AyA'' = ''xyx''
   \<and> applyDefines [(''AB'', ''X''), (''B'', ''Y'')] ''AB B'' = ''X Y''
   \<and> applyDefines [(''DEBUG'', ''($&)'')] ''a DEBUG b'' = ''a (DEBUG) b''
   \<and> applyDefines ([] @ ([], ''C'') # []) ''ab'' = ''CaCbC''"
proof -
  have h1: "''B'' \<noteq> []" by simp
  have h2: "applyDefines [(''A'', ''B'')] ''ABA'' = [] @ ''B'' @ ''BB''"
    by (simp add: applyDefines_def startsWith_def)
  have h3: "\<not> occurs ''B'' ([] @ butlast ''B'')" by (simp add: occurs_def)
  have h4: "\<not> occurs ''B'' (applyDefines [(''A'', ''x'')] ''AyA'')"
    by (simp add: applyDefines_def startsWith_def occurs_def)
  have e1: "replace_global ''B'' ''C'' ''B'' ''BB'' = ''CC''" by (simp add: startsWith_def)
  have e2: "applyDefines [(''A'', ''x'')] ''AyA'' = ''xyx''"
    by (simp add: applyDefines_def startsWith_def)
  have e3: "insert_everywhere ''C'' [] ''ab'' = ''CaCbC''"
    by (simp add: insert_everywhere_def)
  have e4: "applyDefines [(''AB'', ''X''), (''B'', ''Y'')] ''AB B'' = ''X Y''"
    by (simp add: applyDefines_def startsWith_def)
  have e5: "applyDefines [(''DEBUG'', ''($&)'')] ''a DEBUG b'' = ''a (DEBUG) b''"
    by (simp add: applyDefines_def startsWith_def)
  have t1: "applyDefines ([(''A'', ''B'')] @ (''B'', ''C'') # []) ''ABA'' = ''CCC''"
    using applyDefines_textual [where key = "''B''" and ?d1.0 = "[(''A'', ''B'')]"
        and code = "''ABA''" and l = "[]" and r = "''BB''" and val = "''C''" and ?d2.0 = "[]"]
      h1 h2 h3 e1
    by (simp add: applyDefines_def)
  have t2: "applyDefines ([(''A'', ''x'')] @ (''B'', ''C'') # []) ''AyA'' = ''xyx''"
    using applyDefines_textual [where key = "''B''" and ?d1.0 = "[(''A'', ''x'')]"
        and code = "''AyA''" and val = "''C''" and ?d2.0 = "[]"]
      h1 h4 e2
    by (simp add: applyDefines_def)
  have t3: "applyDefines ([] @ ([], ''C'') # []) ''ab'' = ''CaCbC''"
    using applyDefines_textual [where ?d1.0 = "[]" and code = "''ab''" and val = "''C''"
        and ?d2.0 = "[]"]
      e3
    by (simp add: applyDefines_def)
  show ?thesis
    using h1 h2 h3 h4 t1 t2 t3 e4 e5 by blast
qed

subsection \<open>The resolver and its cache\<close>

lemma resolve_failure_cached:
  assumes "fst (resolve h opts st specifier fromFile) = Inl e"
  shows "cache (snd (resolve h opts st specifier fromFile))
           (cacheKey (importing_dir opts fromFile) specifier) = Some None"
  using assms
  by (auto simp: resolve_def Let_def split: option.splits prod.splits sum.splits)

lemma resolve_keeps_entries:
  assumes "cache st k = Some v"
  shows "cache (snd (resolve h opts st specifier fromFile)) k = Some v"
  using assms
  by (auto simp: resolve_def Let_def split: option.splits prod.splits sum.splits)

lemma resolve_many_keeps_entries:
  "cache st k = Some v \<Longrightarrow> cache (resolve_many opts st calls) k = Some v"
proof (induction calls arbitrary: st)
  case Nil
  then show ?case by simp
next
  case (Cons call calls)
  obtain h specifier fromFile where call: "call = (h, specifier, fromFile)" by (cases call) auto
  show ?case
    unfolding call resolve_many.simps
    by (rule Cons.IH) (rule resolve_keeps_entries[OF Cons.prems])
qed

lemma resolve_negative_hit:
  assumes "cache st (cacheKey (importing_dir opts fromFile) specifier) = Some None"
  shows "resolve h opts st specifier fromFile
           = (Inl (not_found specifier (importing_dir opts fromFile)), st)"
  using assms by (simp add: resolve_def Let_def)


text \<open>
  Claim C10: once \<open>resolve\<close> has thrown for an importing directory and a specifier,
  every later \<open>resolve\<close> of the same pair throws the cached \<open>Cannot resolve module\<close>
  error and leaves the resolver as it is, whatever calls were made in between and whatever
  the file system \<open>h'\<close> has become (the answer does not depend on it); \<open>clearCache\<close>
  removes the entry.
\<close>

theorem negative_cache_until_cleared:
  assumes "fst (resolve h opts st specifier fromFile) = Inl e"
    and "importing_dir opts fromFile' = importing_dir opts fromFile"
  shows "resolve h' opts (resolve_many opts (snd (resolve h opts st specifier fromFile)) calls)
             specifier fromFile'
           = (Inl (not_found specifier (importing_dir opts fromFile)),
              resolve_many opts (snd (resolve h opts st specifier fromFile)) calls)
         \<and> cache (clearCache (resolve_many opts (snd (resolve h opts st specifier fromFile)) calls))
             (cacheKey (importing_dir opts fromFile) specifier) = None"
proof -
  define st' where "st' = resolve_many opts (snd (resolve h opts st specifier fromFile)) calls"
  have "cache st' (cacheKey (importing_dir opts fromFile) specifier) = Some None"
    unfolding st'_def
    by (rule resolve_many_keeps_entries) (rule resolve_failure_cached[OF assms(1)])
  then have "cache st' (cacheKey (importing_dir opts fromFile') specifier) = Some None"
    using assms(2) by simp
  then have "resolve h' opts st' specifier fromFile'
           = (Inl (not_found specifier (importing_dir opts fromFile')), st')"
    by (rule resolve_negative_hit)
  then show ?thesis using assms(2) unfolding st'_def by (simp add: clearCache_def)
qed

theorem negative_cache_witness:
  "fst (resolve conditional_host (bundler_resolver_options conditional_host [] [] Browser)
          new_resolver_state ''./missing'' (Some ''/p/main.js''))
     = Inl (Error (''Cannot resolve '' @ quoted ''./missing'' @ '' from '' @ quoted ''/p''))
   \<and> importing_dir (bundler_resolver_options conditional_host [] [] Browser) (Some ''/p/other.js'')
       = importing_dir (bundler_resolver_options conditional_host [] [] Browser) (Some ''/p/main.js'')
   \<and> isFileSync created_host ''/p/missing.js''
   \<and> fst (resolve created_host (bundler_resolver_options conditional_host [] [] Browser)
          (resolve_many (bundler_resolver_options conditional_host [] [] Browser)
             (snd (resolve conditional_host (bundler_resolver_options conditional_host [] [] Browser)
                     new_resolver_state ''./missing'' (Some ''/p/main.js'')))
             [(created_host, ''./main.js'', Some ''/p/main.js'')])
          ''./missing'' (Some ''/p/other.js''))
     = Inl (not_found ''./missing'' ''/p'')"
proof -
  have h1: "fst (resolve conditional_host (bundler_resolver_options conditional_host [] [] Browser)
          new_resolver_state ''./missing'' (Some ''/p/main.js''))
     = Inl (Error (''Cannot resolve '' @ quoted ''./missing'' @ '' from '' @ quoted ''/p''))"
    by code_simp
  have h2: "importing_dir (bundler_resolver_options conditional_host [] [] Browser) (Some ''/p/other.js'')
       = importing_dir (bundler_resolver_options conditional_host [] [] Browser) (Some ''/p/main.js'')"
    by code_simp
  have h3: "isFileSync created_host ''/p/missing.js''" by code_simp
  have h4: "importing_dir (bundler_resolver_options conditional_host [] [] Browser) (Some ''/p/main.js'') = ''/p''"
    by code_simp
  show ?thesis
    using h1 h2 h3 h4
      negative_cache_until_cleared [OF h1 h2, of created_host
         "[(created_host, ''./main.js'', Some ''/p/main.js'')]"]
    by simp
qed

text \<open>
  Claim C4 asks that two calls of \<open>resolve\<close> for the same directory and specifier return
  equal results. At \<open>fs\<close>, a built-in, the first call returns \<open>external: true\<close> and the
  second, served from the cache, \<open>external: false\<close>; at \<open>pkg/sub\<close> the second call has
  lost the package name. The cache stores the path alone.
\<close>

theorem cache_hit_drops_external_flag:
  "fst (resolve conditional_host (bundler_resolver_options conditional_host [] [] Browser)
          new_resolver_state ''fs'' (Some ''/p/main.js''))
     = Inr (plain_result ''fs'' True)
   \<and> fst (resolve conditional_host (bundler_resolver_options conditional_host [] [] Browser)
          (snd (resolve conditional_host (bundler_resolver_options conditional_host [] [] Browser)
                  new_resolver_state ''fs'' (Some ''/p/main.js'')))
          ''fs'' (Some ''/p/main.js''))
     = Inr (plain_result ''fs'' False)
   \<and> fst (resolve conditional_host (bundler_resolver_options conditional_host [] [] Browser)
          new_resolver_state ''pkg/sub'' (Some ''/p/main.js''))
     = Inr (package_result ''/p/node_modules/pkg/d.js'' ''pkg'' conditional_pkg)
   \<and> fst (resolve conditional_host (bundler_resolver_options conditional_host [] [] Browser)
          (snd (resolve conditional_host (bundler_resolver_options conditional_host [] [] Browser)
                  new_resolver_state ''pkg/sub'' (Some ''/p/main.js'')))
          ''pkg/sub'' (Some ''/p/main.js''))
     = Inr (plain_result ''/p/node_modules/pkg/d.js'' False)"
  by code_simp

text \<open>
  Claim C5 asks for the priority \<open>browser, import, module, default, require\<close> in a browser
  build and \<open>node, import, module, require, default\<close> in a server build. The resolver of
  the bundler has the one list \<open>import, require, default, browser, node\<close> for both, and
  \<open>pkg/sub\<close> with \<open>{"browser": "./b.js", "default": "./d.js"}\<close> resolves to \<open>d.js\<close>
  for the browser as for the server.
\<close>

theorem browser_build_resolves_default_condition:
  "conditionNames (bundler_resolver_options conditional_host [] [] Browser)
     = [''import'', ''require'', ''default'', ''browser'', ''node'']
   \<and> conditionNames (bundler_resolver_options conditional_host [] [] Node)
     = [''import'', ''require'', ''default'', ''browser'', ''node'']
   \<and> map_option path (result_of (fst (resolve conditional_host
          (bundler_resolver_options conditional_host [] [] Browser)
          new_resolver_state ''pkg/sub'' (Some ''/p/main.js''))))
     = Some ''/p/node_modules/pkg/d.js''
   \<and> map_option path (result_of (fst (resolve conditional_host
          (bundler_resolver_options conditional_host [] [] Node)
          new_resolver_state ''pkg/sub'' (Some ''/p/main.js''))))
     = Some ''/p/node_modules/pkg/d.js''"
  by code_simp




subsection \<open>Top-level \<open>await\<close>\<close>

text \<open>
  Claim C8 asks that an \<open>await\<close> inside any function, accessors included, does not set
  \<open>hasTopLevelAwait\<close>. The walk stops at function declarations, function expressions,
  arrow functions and methods only: for \<open>class C { get x() { await y; } }\<close> it passes the
  accessor and the class, reaches the source file and sets the flag.
\<close>

theorem await_in_accessor_sets_flag:
  "parse_hasTopLevelAwait await_in_getter = True"
  by (simp add: parse_hasTopLevelAwait_def await_in_getter_def)

subsection \<open>Failures during the build\<close>

lemma process_preserves:
  assumes refl: "\<And>st. R st st"
    and trans: "\<And>x y z. R x y \<Longrightarrow> R y z \<Longrightarrow> R x z"
    and alloc: "\<And>st m. R st (st\<lparr>heap := heap st @ [m],
                   modules := AList.update (module_path m) (length (heap st)) (modules st)\<rparr>)"
    and warn: "\<And>st w. R st (st\<lparr>warnings := warnings st @ [w]\<rparr>)"
    and resolved: "\<And>st rs. R st (st\<lparr>resolverState := rs\<rparr>)"
    and push: "\<And>st b dep. R st (st\<lparr>heap := (heap st)[b := push_dependency dep (heap st ! b)]\<rparr>)"
    and dependent: "\<And>st b p. R st (st\<lparr>heap := (heap st)[b := add_dependent p (heap st ! b)]\<rparr>)"
  shows "(processModule depth h t opts cbs st p ie idy = Some (r, st') \<longrightarrow> R st st')"
    and "(processImports depth h t opts cbs st a q imps = Some st'' \<longrightarrow> R st st'')"
proof (induction depth h t opts cbs st p ie idy and depth h t opts cbs st a q imps
       arbitrary: r st' and st'' rule: processModule_processImports.induct)
  case (1 h t opts cbs st path0 is_entry is_dynamic)
  then show ?case by simp
next
  case (2 depth h t opts cbs st path0 is_entry is_dynamic)
  show ?case
  proof
    assume run: "processModule (Suc depth) h t opts cbs st path0 is_entry is_dynamic = Some (r, st')"
    show "R st st'"
    proof (cases "map_of (modules st) path0")
      case (Some b)
      then show ?thesis using run refl by auto
    next
      case None
      show ?thesis
      proof (cases "createModule h t opts cbs path0 is_entry is_dynamic")
        case (Inl e)
        then show ?thesis using run None refl by auto
      next
        case (Inr mo)
        show ?thesis
        proof (cases mo)
          case none: None
          then show ?thesis using run None Inr refl by auto
        next
          case (Some m)
          let ?st = "st\<lparr>heap := heap st @ [m],
                       modules := AList.update (module_path m) (length (heap st)) (modules st)\<rparr>"
          from run None Inr Some
          have "processImports depth h t opts cbs ?st (length (heap st)) (module_path m)
                  (parseResult_imports m) = Some st'"
            by (auto split: option.splits)
          then have "R ?st st'" using 2[OF None Inr Some] by simp
          then show ?thesis using alloc[of st m] trans by blast
        qed
      qed
    qed
  qed
next
  case (3 depth h t opts cbs st a modulePath)
  then show ?case by (simp add: refl)
next
  case (4 depth h t opts cbs st a modulePath imp imps)
  show ?case
  proof (cases "imp_isTypeOnly imp")
    case True
    then show ?thesis using 4(1) by simp
  next
    case False
    obtain rr rs where res: "resolve h (resolver_options h opts) (resolverState st) (source imp) (Some modulePath) = (rr, rs)"
      by (cases "resolve h (resolver_options h opts) (resolverState st) (source imp) (Some modulePath)") auto
    show ?thesis
    proof (cases rr)
      case (Inl e)
      let ?st = "st\<lparr>resolverState := rs,
                   warnings := warnings st @ [could_not_resolve (source imp) modulePath]\<rparr>"
      have "R st (st\<lparr>resolverState := rs\<rparr>)" by (rule resolved)
      moreover have "R (st\<lparr>resolverState := rs\<rparr>) ?st"
        using warn[of "st\<lparr>resolverState := rs\<rparr>" "could_not_resolve (source imp) modulePath"] by simp
      ultimately have "R st ?st" by (rule trans)
      then show ?thesis
        using False res Inl 4(2)[OF False res[symmetric] Inl, of st''] trans by auto
    next
      case (Inr x)
      show ?thesis
      proof (cases "external_flag x")
        case True
        have "processImports depth h t opts cbs (st\<lparr>resolverState := rs\<rparr>) a modulePath imps = Some st''
                \<longrightarrow> R st st''"
          using 4(3)[OF False res[symmetric] Inr True, of st''] resolved[of st rs] trans by blast
        then show ?thesis
          using False res Inr True by simp
      next
        case ext: False
        note IHm = 4(4)[OF False res[symmetric] Inr ext]
        note IH5 = 4(5)[OF False res[symmetric] Inr ext]
        note IH6 = 4(6)[OF False res[symmetric] Inr ext]
        note IH7 = 4(7)[OF False res[symmetric] Inr ext]
        let ?st = "st\<lparr>resolverState := rs,
                     heap := (heap st)[a := push_dependency (dependency_of imp x) (heap st ! a)]\<rparr>"
        have "R (st\<lparr>resolverState := rs\<rparr>) ?st"
          using push[of "st\<lparr>resolverState := rs\<rparr>" a "dependency_of imp x"] by simp
        then have k0: "R st ?st" using resolved trans by blast
        show ?thesis
        proof (cases "processModule depth h t opts cbs ?st (path x) False (imp_isDynamic imp)")
          case None
          then show ?thesis using False res Inr ext by simp
        next
          case (Some ry)
          obtain r1 y where ry: "ry = (r1, y)" by (cases ry) auto
          have k1: "R st y"
            using IHm[of r1 y] Some ry k0 trans by blast
          show ?thesis
          proof (cases r1)
            case (Inl e)
            let ?y = "y\<lparr>warnings := warnings y @ [could_not_resolve (source imp) modulePath]\<rparr>"
            have "processImports depth h t opts cbs ?y a modulePath imps = Some st''
                  \<longrightarrow> R ?y st''"
              using IH5[OF Some ry[symmetric] Inl, of st''] by simp
            moreover have "R st ?y" using k1 warn trans by blast
            ultimately show ?thesis
              using False res Inr ext Some ry Inl trans by auto
          next
            case r1: (Inr bo)
            show ?thesis
            proof (cases bo)
              case None
              have "processImports depth h t opts cbs y a modulePath imps = Some st''
                    \<longrightarrow> R y st''"
                using IH6[OF Some ry[symmetric] r1 None, of st''] by simp
              then show ?thesis
                using False res Inr ext Some ry r1 None k1 trans by auto
            next
              case b: (Some depModule)
              let ?y = "y\<lparr>heap := (heap y)[depModule := add_dependent modulePath (heap y ! depModule)]\<rparr>"
              have "processImports depth h t opts cbs ?y a modulePath imps = Some st''
                    \<longrightarrow> R ?y st''"
                using IH7[OF Some ry[symmetric] r1 b, of st''] by simp
              moreover have "R st ?y" using k1 dependent trans by blast
              ultimately show ?thesis
                using False res Inr ext Some ry r1 b trans by auto
            qed
          qed
        qed
      qed
    qed
  qed
qed


lemma grows_refl: "grows st st"
  by (simp add: grows_def)

lemma grows_trans: "grows x y \<Longrightarrow> grows y z \<Longrightarrow> grows x z"
proof -
  assume a: "grows x y" and b: "grows y z"
  have l: "length (heap x) \<le> length (heap y)" using a by (simp add: grows_def)
  have "\<forall>i<length (heap x).
          set (dependencies (heap x ! i)) \<subseteq> set (dependencies (heap z ! i))
          \<and> parseResult_imports (heap z ! i) = parseResult_imports (heap x ! i)
          \<and> module_path (heap z ! i) = module_path (heap x ! i)"
  proof (intro allI impI)
    fix i assume i: "i < length (heap x)"
    then have j: "i < length (heap y)" using l by simp
    have "set (dependencies (heap x ! i)) \<subseteq> set (dependencies (heap y ! i))"
      "parseResult_imports (heap y ! i) = parseResult_imports (heap x ! i)"
      "module_path (heap y ! i) = module_path (heap x ! i)"
      using a i by (simp_all add: grows_def)
    moreover have "set (dependencies (heap y ! i)) \<subseteq> set (dependencies (heap z ! i))"
      "parseResult_imports (heap z ! i) = parseResult_imports (heap y ! i)"
      "module_path (heap z ! i) = module_path (heap y ! i)"
      using b j by (simp_all add: grows_def)
    ultimately show "set (dependencies (heap x ! i)) \<subseteq> set (dependencies (heap z ! i))
          \<and> parseResult_imports (heap z ! i) = parseResult_imports (heap x ! i)
          \<and> module_path (heap z ! i) = module_path (heap x ! i)"
      by simp
  qed
  moreover have "set (warnings x) \<subseteq> set (warnings z)" "module_keys x \<subseteq> module_keys z"
    "length (heap x) \<le> length (heap z)"
    using a b by (auto simp: grows_def)
  ultimately show ?thesis by (simp add: grows_def)
qed

lemma grows_alloc:
  "grows st (st\<lparr>heap := heap st @ [m],
               modules := AList.update (module_path m) (length (heap st)) (modules st)\<rparr>)"
  by (auto simp: grows_def module_keys_def dom_update nth_append)

lemma grows_warn: "grows st (st\<lparr>warnings := warnings st @ [w]\<rparr>)"
  by (auto simp: grows_def module_keys_def)

lemma grows_resolved: "grows st (st\<lparr>resolverState := rs\<rparr>)"
  by (auto simp: grows_def module_keys_def)

lemma heap_update_nth:
  "i < length xs \<Longrightarrow> xs[b := y] ! i = (if i = b then y else xs ! i)"
  by (cases "i = b") simp_all

lemma grows_push:
  "grows st (st\<lparr>heap := (heap st)[b := push_dependency dep (heap st ! b)]\<rparr>)"
  by (auto simp: grows_def module_keys_def push_dependency_def heap_update_nth)

lemma grows_dependent:
  "grows st (st\<lparr>heap := (heap st)[b := add_dependent p (heap st ! b)]\<rparr>)"
  by (auto simp: grows_def module_keys_def add_dependent_def heap_update_nth)



lemma processModule_grows:
  "processModule depth h t opts cbs st p ie idy = Some (r, st') \<Longrightarrow> grows st st'"
  using process_preserves(1)[of grows depth h t opts cbs st p ie idy r st',
      OF grows_refl grows_trans grows_alloc grows_warn grows_resolved grows_push grows_dependent]
  by simp









lemma remaining_mono:
  assumes "finite E" and "K \<subseteq> K'"
  shows "card (E - K') \<le> card (E - K)"
  using assms by (intro card_mono) auto

lemma remaining_insert:
  assumes "finite E" and "p \<in> E" and "p \<notin> K"
  shows "card (E - insert p K) < card (E - K)"
  using assms by (intro psubset_card_mono) auto

lemma process_total:
  "finite S \<longrightarrow> creates_within h t opts cbs S \<longrightarrow> card (S - module_keys st) < depth
     \<longrightarrow> processModule depth h t opts cbs st p ie idy \<noteq> None"
  "finite S \<longrightarrow> creates_within h t opts cbs S \<longrightarrow> card (S - module_keys st) < depth
     \<longrightarrow> processImports depth h t opts cbs st a q imps \<noteq> None"
proof (induction depth h t opts cbs st p ie idy and depth h t opts cbs st a q imps
       rule: processModule_processImports.induct)
  case (1 h t opts cbs st path0 is_entry is_dynamic)
  then show ?case by simp
next
  case (2 depth h t opts cbs st path0 is_entry is_dynamic)
  show ?case
  proof (intro impI)
    assume fin: "finite S" and cw: "creates_within h t opts cbs S"
      and c: "card (S - module_keys st) < Suc depth"
    show "processModule (Suc depth) h t opts cbs st path0 is_entry is_dynamic \<noteq> None"
    proof (cases "map_of (modules st) path0")
      case (Some b)
      then show ?thesis by simp
    next
      case None
      show ?thesis
      proof (cases "createModule h t opts cbs path0 is_entry is_dynamic")
        case (Inl e)
        then show ?thesis using None by simp
      next
        case (Inr mo)
        show ?thesis
        proof (cases mo)
          case none: None
          then show ?thesis using None Inr by simp
        next
          case (Some m)
          have pm: "module_path m = path0" and inS: "path0 \<in> S"
            using cw Inr Some unfolding creates_within_def by blast+
          let ?st = "st\<lparr>heap := heap st @ [m],
                       modules := AList.update (module_path m) (length (heap st)) (modules st)\<rparr>"
          have "path0 \<notin> module_keys st"
            using None by (simp add: module_keys_def map_of_eq_None_iff)
          moreover have "module_keys ?st = insert path0 (module_keys st)"
            using pm by (simp add: module_keys_def dom_update)
          ultimately have "card (S - module_keys ?st) < card (S - module_keys st)"
            using remaining_insert[OF fin inS, of "module_keys st"] by simp
          then have "card (S - module_keys ?st) < depth" using c by simp
          then have "processImports depth h t opts cbs ?st (length (heap st)) (module_path m)
                       (parseResult_imports m) \<noteq> None"
            using 2[OF None Inr Some] fin cw by simp
          then show ?thesis using None Inr Some by auto
        qed
      qed
    qed
  qed
next
  case (3 depth h t opts cbs st a modulePath)
  then show ?case by simp
next
  case (4 depth h t opts cbs st a modulePath imp imps)
  show ?case
  proof (intro impI)
    assume fin: "finite S" and cw: "creates_within h t opts cbs S"
      and c: "card (S - module_keys st) < depth"
    show "processImports depth h t opts cbs st a modulePath (imp # imps) \<noteq> None"
    proof (cases "imp_isTypeOnly imp")
      case True
      then show ?thesis using 4(1) fin cw c by simp
    next
      case False
      obtain rr rs where res: "resolve h (resolver_options h opts) (resolverState st) (source imp) (Some modulePath) = (rr, rs)"
        by (cases "resolve h (resolver_options h opts) (resolverState st) (source imp) (Some modulePath)") auto
      show ?thesis
      proof (cases rr)
        case (Inl e)
        then show ?thesis
          using False res 4(2)[OF False res[symmetric] Inl] fin cw c by (simp add: module_keys_def)
      next
        case (Inr x)
        show ?thesis
        proof (cases "external_flag x")
          case True
          then show ?thesis
            using False res Inr 4(3)[OF False res[symmetric] Inr True] fin cw c
            by (simp add: module_keys_def)
        next
          case ext: False
          note IHm = 4(4)[OF False res[symmetric] Inr ext]
          note IH5 = 4(5)[OF False res[symmetric] Inr ext]
          note IH6 = 4(6)[OF False res[symmetric] Inr ext]
          note IH7 = 4(7)[OF False res[symmetric] Inr ext]
          let ?st = "st\<lparr>resolverState := rs,
                       heap := (heap st)[a := push_dependency (dependency_of imp x) (heap st ! a)]\<rparr>"
          have k0: "module_keys ?st = module_keys st"
            by (simp add: module_keys_def)
          then have "processModule depth h t opts cbs ?st (path x) False (imp_isDynamic imp) \<noteq> None"
            using IHm fin cw c by simp
          then obtain r1 y where
            pm: "processModule depth h t opts cbs ?st (path x) False (imp_isDynamic imp) = Some (r1, y)"
            by auto
          have "module_keys st \<subseteq> module_keys y"
            using processModule_grows[OF pm] k0 by (simp add: grows_def)
          then have cy: "card (S - module_keys y) < depth"
            using remaining_mono[OF fin, of "module_keys st" "module_keys y"] c by simp
          show ?thesis
          proof (cases r1)
            case (Inl e)
            have "processImports depth h t opts cbs
                    (y\<lparr>warnings := warnings y @ [could_not_resolve (source imp) modulePath]\<rparr>)
                    a modulePath imps \<noteq> None"
              using IH5[OF pm refl Inl] fin cw cy by (simp add: module_keys_def)
            then show ?thesis
              using False res \<open>rr = Inr x\<close> ext pm Inl by simp
          next
            case r1: (Inr bo)
            show ?thesis
            proof (cases bo)
              case None
              have "processImports depth h t opts cbs y a modulePath imps \<noteq> None"
                using IH6[OF pm refl r1 None] fin cw cy by simp
              then show ?thesis
                using False res \<open>rr = Inr x\<close> ext pm r1 None by simp
            next
              case b: (Some depModule)
              have "processImports depth h t opts cbs
                      (y\<lparr>heap := (heap y)[depModule := add_dependent modulePath (heap y ! depModule)]\<rparr>)
                      a modulePath imps \<noteq> None"
                using IH7[OF pm refl r1 b] fin cw cy by (simp add: module_keys_def)
              then show ?thesis
                using False res \<open>rr = Inr x\<close> ext pm r1 b by simp
            qed
          qed
        qed
      qed
    qed
  qed
qed

lemma processEntries_total:
  assumes fin: "finite S" and cw: "creates_within h t opts cbs S"
    and c: "card (S - module_keys st) < depth"
  shows "\<exists>r st'. processEntries depth h t opts cbs st es = Some (r, st')"
  using c
proof (induction es arbitrary: st)
  case Nil
  then show ?case by simp
next
  case (Cons en es)
  let ?p = "path_resolve (cwd h) [cwd h, en]"
  have "processModule depth h t opts cbs st ?p True False \<noteq> None"
    using process_total(1) fin cw Cons.prems by blast
  then obtain r1 y where pm: "processModule depth h t opts cbs st ?p True False = Some (r1, y)"
    by auto
  show ?case
  proof (cases r1)
    case (Inl e)
    then show ?thesis using pm by auto
  next
    case (Inr m)
    have "module_keys st \<subseteq> module_keys y"
      using processModule_grows[OF pm] by (simp add: grows_def)
    then have "card (S - module_keys y) < depth"
      using remaining_mono[OF fin, of "module_keys st" "module_keys y"] Cons.prems by simp
    from Cons.IH[OF this] show ?thesis using pm Inr by auto
  qed
qed



lemma existing_host_of: "{p. existsSync (host_of nodes jsons texts) p} = fst ` set nodes"
  by (auto simp: existsSync_def host_of_def map_of_eq_None_iff)


lemma plain_creates_within:
  assumes "resolveCallbacks cbs = []" and "loadCallbacks cbs = []"
  shows "creates_within h t opts cbs {p. existsSync h p}"
  unfolding creates_within_def
proof (intro allI impI)
  fix p ie idy m
  assume "createModule h t opts cbs p ie idy = Inr (Some m)"
  then show "module_path m = p \<and> p \<in> {p. existsSync h p}"
    using assms
    by (auto simp: createModule_def new_module_def split: sum.splits option.splits if_splits)
qed



lemma build_returns:
  assumes "finite S" and "card S < depth"
    and "\<forall>cbs. setupPlugins (plugins opts) no_callbacks = Inr cbs \<longrightarrow> creates_within h t opts cbs S"
  shows "\<exists>r st. build depth h t opts = Some (r, st)"
proof (cases "setupPlugins (plugins opts) no_callbacks")
  case (Inl e)
  then show ?thesis by (simp add: build_def)
next
  case (Inr cbs)
  then have cw: "creates_within h t opts cbs S" using assms(3) by blast
  have "card (S - module_keys new_bundler_state) < depth"
    using assms(2) by (simp add: module_keys_def new_bundler_state_def)
  from processEntries_total[OF assms(1) cw this, of "entry opts"]
  obtain r1 y where pe: "processEntries depth h t opts cbs new_bundler_state (entry opts) = Some (r1, y)"
    by blast
  show ?thesis
    using Inr pe by (auto simp: build_def Let_def split: option.splits sum.splits)
qed





subsection \<open>Side effects\<close>

text \<open>
  Claim C3 asks that the side-effect flag of a module follows the \<open>sideEffects\<close> field of
  its package. The resolver hands the field over (\<open>false\<close> for \<open>pkg\<close>), the bundler
  does not read it: every module is created with the flag set, the one of
  \<open>/p/node_modules/pkg/i.js\<close> too.
\<close>

theorem package_sideEffects_ignored:
  "map_option sideEffects_field
     (result_of (fst (resolve pure_pkg_host
                        (resolver_options pure_pkg_host (default_options [''main.js'']))
                        new_resolver_state ''pkg'' (Some ''/p/main.js''))))
     = Some (Some (JBool False))
   \<and> sideEffects_flags
         (built_modules (build 10 pure_pkg_host pure_pkg_tools (default_options [''main.js''])))
       = [(''/p/main.js'', True), (''/p/node_modules/pkg/i.js'', True)]"
  by code_simp

subsection \<open>The order of the modules in a chunk\<close>

lemma fold_dependencies_successors:
  "fold (\<lambda>dep s. (case map_of ms (dep_resolved dep) of
                     Some depModule \<Rightarrow> if depModule \<in> set mods then f depModule s else s
                   | None \<Rightarrow> s)) deps s
     = fold f (chunk_successors ms mods deps) s"
  by (induction deps arbitrary: s) (auto simp: chunk_successors_def split: option.splits)

lemma visit_unfold:
  "visit ms mods visiting m (result, visited) =
     (if module_path m \<in> set visited then (result, visited)
      else if module_path m \<in> set visiting then (result, visited)
      else (case fold (visit ms mods (module_path m # visiting))
                   (chunk_successors ms mods (dependencies m)) (result, visited) of
              (result1, visited1) \<Rightarrow> (result1 @ [m], visited1 @ [module_path m])))"
  by (subst visit.simps) (simp only: fold_dependencies_successors)

lemma chunk_edges_iff:
  "(a, b) \<in> set (chunk_edges ms mods)
     \<longleftrightarrow> a \<in> set mods \<and> b \<in> set (chunk_successors ms mods (dependencies a))"
  by (auto simp: chunk_edges_def)

lemma chunk_successors_in_chunk:
  "b \<in> set (chunk_successors ms mods deps) \<Longrightarrow> b \<in> set mods"
  by (auto simp: chunk_successors_def split: option.splits if_splits)

lemma comes_before_append:
  "comes_before xs y x \<Longrightarrow> comes_before (xs @ ys) y x"
  by (auto simp: comes_before_def takeWhile_append1 dest: set_takeWhileD)

lemma comes_before_last:
  "x \<notin> set xs \<Longrightarrow> y \<in> set xs \<Longrightarrow> comes_before (xs @ [x]) y x"
proof -
  assume a: "x \<notin> set xs" "y \<in> set xs"
  then have "takeWhile (\<lambda>z. z \<noteq> x) (xs @ [x]) = xs @ takeWhile (\<lambda>z. z \<noteq> x) [x]"
    by (intro takeWhile_append2) auto
  then show ?thesis using a by (simp add: comes_before_def)
qed

lemma visit_post_refl: "sorted_inv ms mods s \<Longrightarrow> visit_post ms mods stk s s"
  by (auto simp: visit_post_def)

lemma visit_post_trans:
  "visit_post ms mods stk s s' \<Longrightarrow> visit_post ms mods stk s' s'' \<Longrightarrow> visit_post ms mods stk s s''"
  by (auto simp: visit_post_def)

lemma fold_visit_post:
  assumes step: "\<And>d s. d \<in> set ds \<Longrightarrow> sorted_inv ms mods s
                   \<Longrightarrow> visit_post ms mods stk s (f d s)
                       \<and> (d \<in> set (fst (f d s)) \<or> module_path d \<in> set stk)"
    and "sorted_inv ms mods s"
  shows "visit_post ms mods stk s (fold f ds s)
         \<and> (\<forall>d\<in>set ds. d \<in> set (fst (fold f ds s)) \<or> module_path d \<in> set stk)"
  using assms
proof (induction ds arbitrary: s)
  case Nil
  then show ?case by (simp add: visit_post_refl)
next
  case (Cons d ds)
  have 1: "visit_post ms mods stk s (f d s)"
    and 2: "d \<in> set (fst (f d s)) \<or> module_path d \<in> set stk"
    using Cons.prems(1)[of d s] Cons.prems(2) by auto
  then have inv1: "sorted_inv ms mods (f d s)" by (simp add: visit_post_def)
  have IH: "visit_post ms mods stk (f d s) (fold f ds (f d s))
            \<and> (\<forall>x\<in>set ds. x \<in> set (fst (fold f ds (f d s))) \<or> module_path x \<in> set stk)"
    by (rule Cons.IH) (use Cons.prems(1) inv1 in auto)
  then obtain extra where "fst (fold f ds (f d s)) = fst (f d s) @ extra"
    by (auto simp: visit_post_def)
  then have "d \<in> set (fst (fold f ds (f d s))) \<or> module_path d \<in> set stk" using 2 by auto
  then show ?case using IH visit_post_trans[OF 1] by simp
qed

lemma chunk_successors_dep:
  assumes "d \<in> set (chunk_successors ms mods deps)"
  obtains dep where "dep \<in> set deps" and "map_of ms (dep_resolved dep) = Some d" and "d \<in> set mods"
  using assms by (auto simp: chunk_successors_def split: option.splits if_splits)

lemma visit_respects:
  "\<forall>m\<in>set mods. map_of ms (module_path m) = Some m
   \<Longrightarrow> sorted_inv ms mods s \<Longrightarrow> m \<in> set mods
   \<Longrightarrow> \<forall>a\<in>set mods. module_path a \<in> set stk \<longrightarrow> (a, m) \<in> (set (chunk_edges ms mods))\<^sup>*
   \<Longrightarrow> visit_post ms mods stk s (visit ms mods stk m s)
       \<and> (m \<in> set (fst (visit ms mods stk m s)) \<or> module_path m \<in> set stk)"
proof (induction ms mods stk m s rule: visit.induct)
  case (1 ms mods visiting m result visited)
  let ?E = "set (chunk_edges ms mods)"
  let ?s = "(result, visited)"
  let ?stk = "module_path m # visiting"
  let ?ds = "chunk_successors ms mods (dependencies m)"
  note stored = "1.prems"(1) and inv = "1.prems"(2)
    and m_in = "1.prems"(3) and stack = "1.prems"(4)
  have vis: "visited = map module_path result" and sub: "set result \<subseteq> set mods"
    using inv by (simp_all add: sorted_inv_def)
  have inj: "a = b" if "a \<in> set mods" "b \<in> set mods" "module_path a = module_path b" for a b
    using that stored by (metis option.inject)
  show ?case
  proof (cases "module_path m \<in> set visited")
    case True
    then obtain x where "x \<in> set result" "module_path x = module_path m"
      using vis by auto
    then have "m \<in> set result" using inj[of x m] sub m_in by auto
    then show ?thesis
      using True inv by (subst (1 2) visit_unfold) (simp add: visit_post_refl)
  next
    case not_visited: False
    show ?thesis
    proof (cases "module_path m \<in> set visiting")
      case True
      then show ?thesis
        using not_visited inv by (subst (1 2) visit_unfold) (simp add: visit_post_refl)
    next
      case not_visiting: False
      have stack': "\<forall>a\<in>set mods. module_path a \<in> set ?stk \<longrightarrow> (a, m) \<in> ?E\<^sup>*"
      proof (intro ballI impI)
        fix a assume a: "a \<in> set mods" "module_path a \<in> set ?stk"
        show "(a, m) \<in> ?E\<^sup>*"
        proof (cases "module_path a = module_path m")
          case True
          then have "a = m" using inj a(1) m_in by blast
          then show ?thesis by simp
        next
          case False
          then show ?thesis using a stack by auto
        qed
      qed
      have step: "visit_post ms mods ?stk s' (visit ms mods ?stk d s')
                  \<and> (d \<in> set (fst (visit ms mods ?stk d s')) \<or> module_path d \<in> set ?stk)"
        if d: "d \<in> set ?ds" and inv': "sorted_inv ms mods s'" for d s'
      proof -
        from d obtain dep where dep: "dep \<in> set (dependencies m)"
          "map_of ms (dep_resolved dep) = Some d" "d \<in> set mods"
          by (rule chunk_successors_dep)
        have md: "(m, d) \<in> ?E" using d m_in by (simp add: chunk_edges_iff)
        have "\<forall>a\<in>set mods. module_path a \<in> set ?stk \<longrightarrow> (a, d) \<in> ?E\<^sup>*"
          using stack' md by (meson rtrancl.rtrancl_into_rtrancl)
        then show ?thesis
          using "1.IH"[OF not_visited not_visiting dep stored inv' dep(3)] by blast
      qed
      obtain r1 v1 where f: "fold (visit ms mods ?stk) ?ds ?s = (r1, v1)"
        by (cases "fold (visit ms mods ?stk) ?ds ?s") auto
      have "visit_post ms mods ?stk ?s (fold (visit ms mods ?stk) ?ds ?s)
            \<and> (\<forall>d\<in>set ?ds. d \<in> set (fst (fold (visit ms mods ?stk) ?ds ?s))
                              \<or> module_path d \<in> set ?stk)"
        by (rule fold_visit_post) (use step inv in auto)
      then have post1: "visit_post ms mods ?stk ?s (r1, v1)"
        and ds_in: "\<forall>d\<in>set ?ds. d \<in> set r1 \<or> module_path d \<in> set ?stk"
        using f by simp_all
      then have inv1: "sorted_inv ms mods (r1, v1)" by (simp add: visit_post_def)
      from post1 obtain extra where extra: "r1 = result @ extra"
        "\<forall>x\<in>set extra. module_path x \<notin> set ?stk"
        by (auto simp: visit_post_def)
      have "m \<notin> set result" using not_visited vis by auto
      moreover have "m \<notin> set extra" using extra(2) by auto
      ultimately have m_new: "m \<notin> set r1" using extra(1) by simp
      have res: "visit ms mods visiting m ?s = (r1 @ [m], v1 @ [module_path m])"
        using not_visited not_visiting f by (subst visit_unfold) simp
      have "sorted_inv ms mods (r1 @ [m], v1 @ [module_path m])"
        unfolding sorted_inv_def
      proof (intro conjI ballI allI impI)
        show "snd (r1 @ [m], v1 @ [module_path m]) = map module_path (fst (r1 @ [m], v1 @ [module_path m]))"
          using inv1 by (simp add: sorted_inv_def)
        show "set (fst (r1 @ [m], v1 @ [module_path m])) \<subseteq> set mods"
          using inv1 m_in by (simp add: sorted_inv_def)
      next
        fix x y
        assume x: "x \<in> set (fst (r1 @ [m], v1 @ [module_path m]))"
          and e: "(x, y) \<in> ?E \<and> (y, x) \<notin> ?E\<^sup>*"
        show "comes_before (fst (r1 @ [m], v1 @ [module_path m])) y x"
        proof (cases "x = m")
          case True
          then have y: "y \<in> set ?ds" using e by (simp add: chunk_edges_iff)
          then have y_in: "y \<in> set mods" by (rule chunk_successors_in_chunk)
          have "module_path y \<notin> set ?stk"
          proof
            assume "module_path y \<in> set ?stk"
            then have "(y, m) \<in> ?E\<^sup>*" using stack' y_in by blast
            then show False using e True by simp
          qed
          then have "y \<in> set r1" using ds_in y by blast
          then show ?thesis using True m_new by (simp add: comes_before_last)
        next
          case False
          then have "x \<in> set r1" using x by simp
          then have "comes_before r1 y x" using inv1 e by (simp add: sorted_inv_def)
          then show ?thesis by (simp add: comes_before_append)
        qed
      qed
      moreover have "\<exists>extra'. r1 @ [m] = result @ extra'
                       \<and> (\<forall>x\<in>set extra'. module_path x \<notin> set visiting)"
        using extra not_visiting by (intro exI[of _ "extra @ [m]"]) auto
      ultimately show ?thesis
        unfolding res by (simp add: visit_post_def)
    qed
  qed
qed

text \<open>
  Claim C7, as stated: every static edge inside a chunk has its target before its source,
  cycles apart. \<open>/p/e.js\<close> imports \<open>/p/a.js\<close> dynamically and \<open>/p/a.js\<close> imports
  \<open>/p/e.js\<close> statically; without code splitting both are in the chunk \<open>bundle\<close>. The
  only static edge goes from \<open>a.js\<close> to \<open>e.js\<close>, and no cycle of static edges exists,
  yet \<open>a.js\<close> is emitted first: the sort follows dynamic dependencies like static ones.
\<close>

theorem static_edge_violated_by_dynamic_cycle:
  "edge_ids (static_chunk_edges mixed_cycle_modules (map snd mixed_cycle_modules))
     = [(''a.js'', ''e.js'')]
   \<and> map module_id (topologicalSort mixed_cycle_modules (map snd mixed_cycle_modules))
     = [''a.js'', ''e.js'']
   \<and> \<not> comes_before [''a.js'', ''e.js''] ''e.js'' ''a.js''"
  by code_simp


text \<open>
  Claim C7, amended: when the chunk's modules are the ones stored under their paths, every
  dependency edge inside the chunk, static or dynamic, from whose target no path of such
  edges leads back to its source has the target before the source in the order of emission.
  Only an edge that lies on a cycle of recorded edges can be emitted the other way round.
  The witness is the edge from \<open>a.js\<close> to \<open>c.js\<close> beside the cycle of \<open>e.js\<close> and
  \<open>a.js\<close>.
\<close>

theorem topologicalSort_respects_edges_off_cycles:
  assumes stored: "\<forall>m\<in>set mods. map_of ms (module_path m) = Some m"
    and edge: "(a, b) \<in> set (chunk_edges ms mods)"
    and nopath: "(b, a) \<notin> (set (chunk_edges ms mods))\<^sup>*"
  shows "comes_before (topologicalSort ms mods) b a"
proof -
  have init: "sorted_inv ms mods ([], [])" by (simp add: sorted_inv_def)
  have "visit_post ms mods [] ([], []) (fold (visit ms mods []) mods ([], []))
        \<and> (\<forall>d\<in>set mods. d \<in> set (fst (fold (visit ms mods []) mods ([], [])))
                           \<or> module_path d \<in> set [])"
  proof (rule fold_visit_post[OF _ init])
    fix d s assume "d \<in> set mods" "sorted_inv ms mods s"
    then show "visit_post ms mods [] s (visit ms mods [] d s)
               \<and> (d \<in> set (fst (visit ms mods [] d s)) \<or> module_path d \<in> set [])"
      using visit_respects[OF stored, of s d "[]"] by simp
  qed
  then have inv: "sorted_inv ms mods (fold (visit ms mods []) mods ([], []))"
    and all: "set mods \<subseteq> set (topologicalSort ms mods)"
    by (auto simp: visit_post_def topologicalSort_def)
  have "a \<in> set mods" using edge by (simp add: chunk_edges_iff)
  then have "a \<in> set (topologicalSort ms mods)" using all by auto
  then show ?thesis
    using inv edge nopath by (simp add: sorted_inv_def topologicalSort_def)
qed


theorem topologicalSort_respects_edges_off_cycles_witness:
  "list_all (\<lambda>m. map_of leaf_cycle_modules (module_path m) = Some m) (map snd leaf_cycle_modules)
   \<and> edge_ids (chunk_edges leaf_cycle_modules (map snd leaf_cycle_modules))
       = [(''e.js'', ''a.js''), (''a.js'', ''e.js''), (''a.js'', ''c.js'')]
   \<and> (module_at leaf_cycle_modules ''/p/a.js'', module_at leaf_cycle_modules ''/p/c.js'')
       \<in> set (chunk_edges leaf_cycle_modules (map snd leaf_cycle_modules))
   \<and> (module_at leaf_cycle_modules ''/p/c.js'', module_at leaf_cycle_modules ''/p/a.js'')
       \<notin> (set (chunk_edges leaf_cycle_modules (map snd leaf_cycle_modules)))\<^sup>*
   \<and> map module_id (topologicalSort leaf_cycle_modules (map snd leaf_cycle_modules))
       = [''c.js'', ''a.js'', ''e.js'']
   \<and> comes_before (topologicalSort leaf_cycle_modules (map snd leaf_cycle_modules))
         (module_at leaf_cycle_modules ''/p/c.js'') (module_at leaf_cycle_modules ''/p/a.js'')"
proof -
  let ?M = "leaf_cycle_modules"
  let ?E = "chunk_edges ?M (map snd ?M)"
  have l1: "list_all (\<lambda>m. map_of ?M (module_path m) = Some m) (map snd ?M)"
    by code_simp
  then have h1: "\<forall>m\<in>set (map snd ?M). map_of ?M (module_path m) = Some m"
    by (simp only: list_all_iff)
  have ids: "edge_ids ?E = [(''e.js'', ''a.js''), (''a.js'', ''e.js''), (''a.js'', ''c.js'')]"
    by code_simp
  have h2: "(module_at ?M ''/p/a.js'', module_at ?M ''/p/c.js'') \<in> set ?E"
    by code_simp
  have leaf: "list_all (\<lambda>e. fst e \<noteq> module_at ?M ''/p/c.js'') ?E"
    by code_simp
  have ne: "module_at ?M ''/p/c.js'' \<noteq> module_at ?M ''/p/a.js''"
    by code_simp
  have h3: "(module_at ?M ''/p/c.js'', module_at ?M ''/p/a.js'') \<notin> (set ?E)\<^sup>*"
  proof
    assume "(module_at ?M ''/p/c.js'', module_at ?M ''/p/a.js'') \<in> (set ?E)\<^sup>*"
    then show False
    proof (cases rule: converse_rtranclE)
      case base
      then show ?thesis using ne by simp
    next
      case (step z)
      then show ?thesis using leaf by (auto simp only: list_all_iff fst_conv)
    qed
  qed
  have ord: "map module_id (topologicalSort ?M (map snd ?M)) = [''c.js'', ''a.js'', ''e.js'']"
    by code_simp
  show ?thesis
    using l1 ids h2 h3 ord topologicalSort_respects_edges_off_cycles [OF h1 h2 h3] by blast
qed


subsection \<open>Rebuilds of the dev server\<close>

text \<open>
  Claim C9, as stated: a rebuild that fails with an error leaves the bundle being served as
  it was, and the bundle is replaced only when the rebuild succeeds. The build of the
  project of \<open>missing_import_host\<close> succeeds and \<open>options.onRebuild\<close> throws: the rebuild
  ends in its \<open>catch\<close> and the client is sent the message of type \<open>error\<close>, yet the
  server, which served no bundle before, now serves the new one.
\<close>

theorem callback_error_after_replacement:
  "build_succeeded (build 10 missing_import_host missing_import_tools (default_options [''main.js'']))
   \<and> currentBundle (serving\<lparr>currentBundle := None\<rparr>) = None
   \<and> map_option (map_option (map chunk_modules \<circ> chunks) \<circ> currentBundle)
         (rebuild 10 missing_import_host missing_import_tools (default_options [''main.js''])
            (\<lambda>_. Some (Error ''boom'')) (serving\<lparr>currentBundle := None\<rparr>) ''/p/main.js'' 7)
       = Some (Some [[''a.js'', ''main.js'']])
   \<and> map_option sent
         (rebuild 10 missing_import_host missing_import_tools (default_options [''main.js''])
            (\<lambda>_. Some (Error ''boom'')) (serving\<lparr>currentBundle := None\<rparr>) ''/p/main.js'' 7)
       = Some [(1, ErrorMessage ''boom'')]"
  by code_simp

text \<open>
  Claim C9, amended. While a rebuild is under way, \<open>rebuild\<close> does nothing; otherwise it
  returns whenever the build does. When the build is rejected, the bundle being served
  stays as it was and every client whose socket is open is sent one message of type
  \<open>error\<close> with the message of the failure. When the build succeeds, its output becomes
  the bundle being served and is handed to \<open>onRebuild\<close>; the clients are then sent the
  message of type \<open>error\<close> if \<open>onRebuild\<close> throws, and the update or the full reload if
  it does not.
\<close>

theorem rebuild_outcomes:
  "(isRebuilding ds \<longrightarrow> rebuild depth h t opts onRebuild ds changedFile now = Some ds)
   \<and> (\<not> isRebuilding ds \<and> finite S \<and> card S < depth
       \<and> (\<forall>cbs. setupPlugins (plugins opts) no_callbacks = Inr cbs \<longrightarrow> creates_within h t opts cbs S)
      \<longrightarrow> (\<exists>ds'. rebuild depth h t opts onRebuild ds changedFile now = Some ds'))
   \<and> (\<not> isRebuilding ds \<and> build depth h t opts = Some (built, st)
      \<longrightarrow> (\<exists>ds'. rebuild depth h t opts onRebuild ds changedFile now = Some ds'
             \<and> \<not> isRebuilding ds' \<and> clients ds' = clients ds
             \<and> (case built of
                   Inl e \<Rightarrow>
                     currentBundle ds' = currentBundle ds
                     \<and> onRebuild_calls ds' = onRebuild_calls ds
                     \<and> sent ds' = sent ds @ map (\<lambda>c. (c, ErrorMessage (message_of e))) (open_clients ds)
                 | Inr newBundle \<Rightarrow>
                     currentBundle ds' = Some newBundle
                     \<and> onRebuild_calls ds' = onRebuild_calls ds @ [newBundle]
                     \<and> sent ds' = sent ds @ map (\<lambda>c. (c,
                          (case onRebuild newBundle of
                             Some e \<Rightarrow> ErrorMessage (message_of e)
                           | None \<Rightarrow>
                               if getUpdates h newBundle changedFile now \<noteq> []
                               then UpdateMessage now (getUpdates h newBundle changedFile now)
                               else FullReloadMessage now))) (open_clients ds))))"
proof (intro conjI impI)
  assume "isRebuilding ds"
  then show "rebuild depth h t opts onRebuild ds changedFile now = Some ds"
    by (simp add: rebuild_def)
next
  assume a: "\<not> isRebuilding ds \<and> finite S \<and> card S < depth
       \<and> (\<forall>cbs. setupPlugins (plugins opts) no_callbacks = Inr cbs \<longrightarrow> creates_within h t opts cbs S)"
  then obtain r st' where "build depth h t opts = Some (r, st')"
    using build_returns[of S depth opts h t] by blast
  then show "\<exists>ds'. rebuild depth h t opts onRebuild ds changedFile now = Some ds'"
    using a by (simp add: rebuild_def)
next
  assume a: "\<not> isRebuilding ds \<and> build depth h t opts = Some (built, st)"
  let ?ds = "finish_rebuild h onRebuild ds built changedFile now"
  have r: "rebuild depth h t opts onRebuild ds changedFile now = Some ?ds"
    using a by (simp add: rebuild_def)
  have o: "open_clients (ds\<lparr>currentBundle := b, onRebuild_calls := c\<rparr>) = open_clients ds" for b c
    by (simp add: open_clients_def)
  have "\<not> isRebuilding ?ds \<and> clients ?ds = clients ds
        \<and> (case built of
              Inl e \<Rightarrow>
                currentBundle ?ds = currentBundle ds
                \<and> onRebuild_calls ?ds = onRebuild_calls ds
                \<and> sent ?ds = sent ds @ map (\<lambda>c. (c, ErrorMessage (message_of e))) (open_clients ds)
            | Inr newBundle \<Rightarrow>
                currentBundle ?ds = Some newBundle
                \<and> onRebuild_calls ?ds = onRebuild_calls ds @ [newBundle]
                \<and> sent ?ds = sent ds @ map (\<lambda>c. (c,
                     (case onRebuild newBundle of
                        Some e \<Rightarrow> ErrorMessage (message_of e)
                      | None \<Rightarrow>
                          if getUpdates h newBundle changedFile now \<noteq> []
                          then UpdateMessage now (getUpdates h newBundle changedFile now)
                          else FullReloadMessage now))) (open_clients ds))"
    by (cases built)
       (auto simp: finish_rebuild_def broadcast_def Let_def o split: option.splits)
  then show "\<exists>ds'. rebuild depth h t opts onRebuild ds changedFile now = Some ds'
             \<and> \<not> isRebuilding ds' \<and> clients ds' = clients ds
             \<and> (case built of
                   Inl e \<Rightarrow>
                     currentBundle ds' = currentBundle ds
                     \<and> onRebuild_calls ds' = onRebuild_calls ds
                     \<and> sent ds' = sent ds @ map (\<lambda>c. (c, ErrorMessage (message_of e))) (open_clients ds)
                 | Inr newBundle \<Rightarrow>
                     currentBundle ds' = Some newBundle
                     \<and> onRebuild_calls ds' = onRebuild_calls ds @ [newBundle]
                     \<and> sent ds' = sent ds @ map (\<lambda>c. (c,
                          (case onRebuild newBundle of
                             Some e \<Rightarrow> ErrorMessage (message_of e)
                           | None \<Rightarrow>
                               if getUpdates h newBundle changedFile now \<noteq> []
                               then UpdateMessage now (getUpdates h newBundle changedFile now)
                               else FullReloadMessage now))) (open_clients ds))"
    using r by blast
qed


theorem rebuild_outcomes_witness:
  "\<not> isRebuilding serving
   \<and> finite {p. existsSync deleted_entry_host p} \<and> card {p. existsSync deleted_entry_host p} < 10
   \<and> creates_within deleted_entry_host missing_import_tools (default_options [''main.js''])
        no_callbacks {p. existsSync deleted_entry_host p}
   \<and> map_option fst (build 10 deleted_entry_host missing_import_tools (default_options [''main.js'']))
       = Some (Inl (Error ''File not found: /p/main.js''))
   \<and> map_option currentBundle
         (rebuild 10 deleted_entry_host missing_import_tools (default_options [''main.js''])
            (\<lambda>_. None) serving ''/p/main.js'' 7)
       = Some (currentBundle serving)
   \<and> map_option sent
         (rebuild 10 deleted_entry_host missing_import_tools (default_options [''main.js''])
            (\<lambda>_. None) serving ''/p/main.js'' 7)
       = Some [(1, ErrorMessage ''File not found: /p/main.js'')]
   \<and> map_option (map chunk_modules \<circ> chunks) (currentBundle serving) = Some [[''a.js'', ''main.js'']]
   \<and> \<not> isRebuilding (serving\<lparr>currentBundle := None\<rparr>)
   \<and> map_option fst (build 10 missing_import_host missing_import_tools (default_options [''main.js'']))
       = Some (Inr (the (currentBundle serving)))
   \<and> map_option currentBundle
         (rebuild 10 missing_import_host missing_import_tools (default_options [''main.js''])
            (\<lambda>_. Some (Error ''boom'')) (serving\<lparr>currentBundle := None\<rparr>) ''/p/main.js'' 7)
       = Some (currentBundle serving)
   \<and> map_option sent
         (rebuild 10 missing_import_host missing_import_tools (default_options [''main.js''])
            (\<lambda>_. Some (Error ''boom'')) (serving\<lparr>currentBundle := None\<rparr>) ''/p/main.js'' 7)
       = Some [(1, ErrorMessage ''boom'')]"
proof -
  let ?t = "missing_import_tools" and ?opts = "default_options [''main.js'']"
  let ?S = "{p. existsSync deleted_entry_host p}"
  have h0: "\<not> isRebuilding serving" by (simp add: serving_def)
  have h1: "finite ?S"
    unfolding deleted_entry_host_def existing_host_of by simp
  have h2: "card ?S < 10"
    unfolding deleted_entry_host_def existing_host_of by code_simp
  have h3: "creates_within deleted_entry_host ?t ?opts no_callbacks ?S"
    by (rule plain_creates_within) (simp_all add: no_callbacks_def)
  have b: "map_option fst (build 10 deleted_entry_host ?t ?opts)
             = Some (Inl (Error ''File not found: /p/main.js''))"
    by code_simp
  then obtain st where b': "build 10 deleted_entry_host ?t ?opts
             = Some (Inl (Error ''File not found: /p/main.js''), st)"
    by (cases "build 10 deleted_entry_host ?t ?opts") auto
  have o: "open_clients serving = [1]" "sent serving = []"
    "open_clients (serving\<lparr>currentBundle := None\<rparr>) = [1]"
    "sent (serving\<lparr>currentBundle := None\<rparr>) = []"
    by (simp_all add: serving_def open_clients_def)
  have c: "map_option (map chunk_modules \<circ> chunks) (currentBundle serving) = Some [[''a.js'', ''main.js'']]"
    by code_simp
  have g0: "\<not> isRebuilding (serving\<lparr>currentBundle := None\<rparr>)" by (simp add: serving_def)
  have s: "map_option fst (build 10 missing_import_host ?t ?opts)
             = Some (Inr (the (currentBundle serving)))"
    by code_simp
  then obtain st2 where s': "build 10 missing_import_host ?t ?opts
             = Some (Inr (the (currentBundle serving)), st2)"
    by (cases "build 10 missing_import_host ?t ?opts") auto
  have cs: "currentBundle serving = Some (the (currentBundle serving))"
    using c by (cases "currentBundle serving") auto
  have t1: "map_option currentBundle
              (rebuild 10 deleted_entry_host ?t ?opts (\<lambda>_. None) serving ''/p/main.js'' 7)
              = Some (currentBundle serving)
            \<and> map_option sent
              (rebuild 10 deleted_entry_host ?t ?opts (\<lambda>_. None) serving ''/p/main.js'' 7)
              = Some [(1, ErrorMessage ''File not found: /p/main.js'')]"
    using rebuild_outcomes [of serving 10 deleted_entry_host ?t ?opts "\<lambda>_. None" "''/p/main.js''" 7
        ?S "Inl (Error ''File not found: /p/main.js'')" st] h0 b' o
    by auto
  have t2: "map_option currentBundle
              (rebuild 10 missing_import_host ?t ?opts (\<lambda>_. Some (Error ''boom''))
                 (serving\<lparr>currentBundle := None\<rparr>) ''/p/main.js'' 7)
              = Some (currentBundle serving)
            \<and> map_option sent
              (rebuild 10 missing_import_host ?t ?opts (\<lambda>_. Some (Error ''boom''))
                 (serving\<lparr>currentBundle := None\<rparr>) ''/p/main.js'' 7)
              = Some [(1, ErrorMessage ''boom'')]"
    using rebuild_outcomes [of "serving\<lparr>currentBundle := None\<rparr>" 10 missing_import_host ?t ?opts
        "\<lambda>_. Some (Error ''boom'')" "''/p/main.js''" 7 ?S "Inr (the (currentBundle serving))" st2]
      g0 s' o cs
    by auto
  show ?thesis
    using h0 h1 h2 h3 b c g0 s t1 t2 by blast
qed


end
